theory Spec2Isabelle
  imports Main
begin

section \<open>Strings as the program sees them\<close>

text \<open>
  A source string is modelled as a \<^typ>\<open>string\<close>; one \<^typ>\<open>char\<close> stands for the
  code unit of the same value (U+0000 to U+00FF).  \<open>String.prototype.trim\<close> removes
  white space and line terminators from both ends; in this range these are TAB, LF, VT,
  FF, CR, SPACE and NBSP.
\<close>

definition isWhiteSpace :: "char \<Rightarrow> bool" where
  "isWhiteSpace c =
     (c = CHR 0x09 \<or> c = CHR 0x0A \<or> c = CHR 0x0B \<or> c = CHR 0x0C \<or> c = CHR 0x0D \<or>
      c = CHR 0x20 \<or> c = CHR 0xA0)"

definition trim :: "string \<Rightarrow> string" where
  "trim s = rev (dropWhile isWhiteSpace (rev (dropWhile isWhiteSpace s)))"

definition startsWith :: "string \<Rightarrow> string \<Rightarrow> bool" where
  "startsWith s p = (take (length p) s = p)"

fun includes_str :: "string \<Rightarrow> string \<Rightarrow> bool" where
  "includes_str [] p = (p = [])"
| "includes_str (c # cs) p = (startsWith (c # cs) p \<or> includes_str cs p)"

text \<open>\<open>s.split(sep)\<close> for a one-character separator, and \<open>pop\<close> on the result.\<close>

fun split :: "char \<Rightarrow> string \<Rightarrow> string list" where
  "split sep [] = [[]]"
| "split sep (c # cs) =
     (if c = sep then [] # split sep cs
      else (case split sep cs of [] \<Rightarrow> [[c]] | piece # pieces \<Rightarrow> (c # piece) # pieces))"

fun pop :: "'a list \<Rightarrow> 'a option" where
  "pop [] = None"
| "pop [x] = Some x"
| "pop (x # y # ys) = pop (y # ys)"

text \<open>\<open>Date.now().toString()\<close>: the decimal digits of a time stamp.\<close>

definition digit :: "nat \<Rightarrow> char" where
  "digit d = char_of (48 + d)"

fun toString :: "nat \<Rightarrow> string" where
  "toString n = (if n < 10 then [digit n] else toString (n div 10) @ [digit (n mod 10)])"

declare toString.simps [simp del]

section \<open>The pattern for an image reference\<close>

text \<open>
  The regular expression \<^verbatim>\<open>/^(data:image\/.+;base64,|https?:\/\/)/i\<close>, tested against a
  string.  The flag \<open>i\<close> folds the case of the ASCII letters; \<open>.\<close> matches any code
  unit but a line terminator (LF and CR in this range).
\<close>

definition asciiLower :: "char \<Rightarrow> char" where
  "asciiLower c =
     (let n = (of_char c :: nat) in if 65 \<le> n \<and> n \<le> 90 then char_of (n + 32) else c)"

definition ciStartsWith :: "string \<Rightarrow> string \<Rightarrow> bool" where
  "ciStartsWith s p = (map asciiLower (take (length p) s) = map asciiLower p)"

definition isLineTerminator :: "char \<Rightarrow> bool" where
  "isLineTerminator c = (c = CHR 0x0A \<or> c = CHR 0x0D)"

text \<open>\<open>base64Tail s\<close>: the rest \<^verbatim>\<open>.*;base64,\<close> of the first alternative matches at the
  start of \<open>s\<close>.\<close>

fun base64Tail :: "string \<Rightarrow> bool" where
  "base64Tail [] = False"
| "base64Tail (c # cs) =
     (ciStartsWith (c # cs) '';base64,'' \<or> (\<not> isLineTerminator c \<and> base64Tail cs))"

definition looksLikeUrl :: "string \<Rightarrow> bool" where
  "looksLikeUrl s =
     ((ciStartsWith s ''data:image/'' \<and>
        (case drop 11 s of [] \<Rightarrow> False | c # cs \<Rightarrow> \<not> isLineTerminator c \<and> base64Tail cs))
      \<or> ciStartsWith s ''http://'' \<or> ciStartsWith s ''https://'')"

section \<open>JSON values and the search for an image\<close>

text \<open>
  A value as \<open>res.json()\<close> delivers it.  An object is the list of its own properties in the
  order \<open>Object.keys\<close> enumerates them, each key once; an array is the list of its
  elements.  The search never reads a number, so its representation is left open.
\<close>

datatype 'n json =
    JNull
  | JBool bool
  | JNumber 'n
  | JString string
  | JArray "'n json list"
  | JObject "(string \<times> 'n json) list"

text \<open>\<open>a ?? b\<close>; \<open>None\<close> is \<open>undefined\<close>.\<close>

fun nullishCoalesce :: "'n json option \<Rightarrow> 'n json option \<Rightarrow> 'n json option" where
  "nullishCoalesce None b = b"
| "nullishCoalesce (Some JNull) b = b"
| "nullishCoalesce (Some v) b = Some v"

text \<open>\<open>obj.image ?? obj.imageUrl ?? obj.image_url ?? obj.thumbnail ?? obj.thumb ?? obj.url\<close>\<close>

definition direct :: "(string \<times> 'n json) list \<Rightarrow> 'n json option" where
  "direct obj =
     nullishCoalesce (nullishCoalesce (nullishCoalesce (nullishCoalesce (nullishCoalesce
       (map_of obj ''image'') (map_of obj ''imageUrl'')) (map_of obj ''image_url''))
       (map_of obj ''thumbnail'')) (map_of obj ''thumb'')) (map_of obj ''url'')"

text \<open>\<open>val && typeof val === 'object'\<close>: arrays are objects, \<open>null\<close> is falsy.\<close>

fun isObject :: "'n json \<Rightarrow> bool" where
  "isObject (JArray _) = True"
| "isObject (JObject _) = True"
| "isObject _ = False"

text \<open>
  \<open>findImageDeep\<close>, with \<open>keysLoop\<close> for its loop \<open>for (const key of Object.keys(obj))\<close>
  over the values \<open>obj[key]\<close>.  An array has none of the six named properties, and its
  keys are its indices in order.
\<close>

lemma size_values_le:
  "size_list (\<lambda>x. size (snd x)) obj \<le> size_list (size_prod (\<lambda>x. 0) size) obj"
  by (induction obj) auto

function findImageDeep :: "'n json \<Rightarrow> string option"
  and keysLoop :: "'n json list \<Rightarrow> string option" where
  "findImageDeep (JObject obj) =
     (case direct obj of
        Some (JString s) \<Rightarrow> if looksLikeUrl s then Some s else keysLoop (map snd obj)
      | _ \<Rightarrow> keysLoop (map snd obj))"
| "findImageDeep (JArray items) = keysLoop items"
| "findImageDeep JNull = None"
| "findImageDeep (JBool b) = None"
| "findImageDeep (JNumber n) = None"
| "findImageDeep (JString s) = None"
| "keysLoop [] = None"
| "keysLoop (val # rest) =
     (case val of
        JString s \<Rightarrow> if looksLikeUrl s then Some s else keysLoop rest
      | _ \<Rightarrow>
        if isObject val then
          (case findImageDeep val of
             Some found \<Rightarrow> if found \<noteq> [] then Some found else keysLoop rest
           | None \<Rightarrow> keysLoop rest)
        else keysLoop rest)"
  by pat_completeness auto
termination
  by (relation "measure (\<lambda>x. case x of Inl v \<Rightarrow> size v | Inr vs \<Rightarrow> size_list size vs)")
     (auto simp: size_list_map o_def less_Suc_eq_le size_values_le)

text \<open>
  The words of the specification about the search.  \<open>firstNamed obj\<close> is the value of
  the first of the six names that \<open>obj\<close> has with a value other than \<open>null\<close>.
  \<open>stringValues v\<close> lists, in the order of the keys and depth first, the strings that are
  values of properties and elements of \<open>v\<close> and of the objects and arrays in it;
  \<open>stringValues_noArrays\<close> lists those that are reached without entering an array.
\<close>

definition priorityNames :: "string list" where
  "priorityNames = [''image'', ''imageUrl'', ''image_url'', ''thumbnail'', ''thumb'', ''url'']"

definition firstPresent :: "'n json option list \<Rightarrow> 'n json option" where
  "firstPresent values =
     (case filter (\<lambda>v. v \<noteq> JNull) (List.map_filter (\<lambda>x. x) values) of
        [] \<Rightarrow> None
      | v # _ \<Rightarrow> Some v)"

definition firstNamed :: "(string \<times> 'n json) list \<Rightarrow> 'n json option" where
  "firstNamed obj = firstPresent (map (map_of obj) priorityNames)"

function stringValues :: "'n json \<Rightarrow> string list"
  and stringValues_list :: "'n json list \<Rightarrow> string list" where
  "stringValues (JObject obj) = stringValues_list (map snd obj)"
| "stringValues (JArray items) = stringValues_list items"
| "stringValues JNull = []"
| "stringValues (JBool b) = []"
| "stringValues (JNumber n) = []"
| "stringValues (JString s) = []"
| "stringValues_list [] = []"
| "stringValues_list (val # rest) =
     (case val of JString s \<Rightarrow> [s] | _ \<Rightarrow> stringValues val) @ stringValues_list rest"
  by pat_completeness auto
termination
  by (relation "measure (\<lambda>x. case x of Inl v \<Rightarrow> size v | Inr vs \<Rightarrow> size_list size vs)")
     (auto simp: size_list_map o_def less_Suc_eq_le size_values_le)

function stringValues_noArrays :: "'n json \<Rightarrow> string list"
  and stringValues_noArrays_list :: "'n json list \<Rightarrow> string list" where
  "stringValues_noArrays (JObject obj) = stringValues_noArrays_list (map snd obj)"
| "stringValues_noArrays (JArray items) = []"
| "stringValues_noArrays JNull = []"
| "stringValues_noArrays (JBool b) = []"
| "stringValues_noArrays (JNumber n) = []"
| "stringValues_noArrays (JString s) = []"
| "stringValues_noArrays_list [] = []"
| "stringValues_noArrays_list (val # rest) =
     (case val of JString s \<Rightarrow> [s] | _ \<Rightarrow> stringValues_noArrays val)
     @ stringValues_noArrays_list rest"
  by pat_completeness auto
termination
  by (relation "measure (\<lambda>x. case x of Inl v \<Rightarrow> size v | Inr vs \<Rightarrow> size_list size vs)")
     (auto simp: size_list_map o_def less_Suc_eq_le size_values_le)

text \<open>
  The order of the search in words: \<open>examined v\<close> lists the strings in the order in which
  the search comes to them.  At an object this is first the value of the first of the six
  names that has a value other than \<open>null\<close>, when that value is a string; then the values
  of the object in the order of its keys, a string as itself and an object or an array
  as the strings examined inside it, at the place where it stands (depth first).  At an
  array it is the elements in the order of their indices, in the same way.  Nothing is
  examined in a value that is itself a string, a number, a boolean or \<open>null\<close>.
\<close>

function examined :: "'n json \<Rightarrow> string list"
  and examined_list :: "'n json list \<Rightarrow> string list" where
  "examined (JObject obj) =
     (case firstNamed obj of Some (JString s) \<Rightarrow> [s] | _ \<Rightarrow> []) @ examined_list (map snd obj)"
| "examined (JArray items) = examined_list items"
| "examined JNull = []"
| "examined (JBool b) = []"
| "examined (JNumber n) = []"
| "examined (JString s) = []"
| "examined_list [] = []"
| "examined_list (val # rest) =
     (case val of JString s \<Rightarrow> [s] | _ \<Rightarrow> examined val) @ examined_list rest"
  by pat_completeness auto
termination
  by (relation "measure (\<lambda>x. case x of Inl v \<Rightarrow> size v | Inr vs \<Rightarrow> size_list size vs)")
     (auto simp: size_list_map o_def less_Suc_eq_le size_values_le)

section \<open>App: the webhook response\<close>

text \<open>
  The \<open>Response\<close> as \<open>postWebhook\<close> observes it: the status (\<open>res.ok\<close> holds for 200 to
  299), \<open>res.headers.get('content-type')\<close>, and what reading the body delivers:
  \<open>URL.createObjectURL(await res.blob())\<close>, \<open>await res.json()\<close> and \<open>await res.text()\<close>,
  each \<open>None\<close> where the promise rejects (for \<open>res.json()\<close> also when the body is not
  JSON).  The promise of \<open>fetch\<close> itself resolves to a response or rejects.
\<close>

record 'n response =
  res_status :: nat
  res_contentType :: "string option"
  res_objectUrl :: "string option"
  res_json :: "'n json option"
  res_text :: "string option"

definition ok :: "'n response \<Rightarrow> bool" where
  "ok res = (200 \<le> res_status res \<and> res_status res \<le> 299)"

datatype 'n fetched = Rejected | Resolved "'n response"

datatype toastType = Success | Error | Info

text \<open>The calls \<open>postWebhook\<close> makes once the request has settled, in their order.\<close>

datatype action =
    SetWebhookImage string
  | SetWebhookNote string
  | AddToast string toastType

definition corsActions :: "action list" where
  "corsActions =
     [AddToast (''Couldn'' @ CHR 0x27 # ''t send URL due to site restrictions (CORS)'') Info,
      SetWebhookNote
        (''Couldn'' @ CHR 0x27 # ''t load webhook response due to site restrictions (CORS). '')]"

definition previewActions :: "string \<Rightarrow> action list" where
  "previewActions img = [SetWebhookImage img, AddToast ''Preview received from webhook'' Success]"

definition noteActions :: "string \<Rightarrow> action list" where
  "noteActions msg = [SetWebhookNote msg, AddToast ''URL sent successfully'' Success]"

text \<open>\<open>res.headers.get('content-type') || \<close>\<open>''\<close>\<close>

definition contentTypeOf :: "'n response \<Rightarrow> string" where
  "contentTypeOf res = (case res_contentType res of None \<Rightarrow> [] | Some v \<Rightarrow> v)"

definition postWebhook_settled :: "'n fetched \<Rightarrow> action list" where
  "postWebhook_settled f =
     (case f of
        Rejected \<Rightarrow> corsActions
      | Resolved res \<Rightarrow>
          if ok res then
            (let contentType = contentTypeOf res in
             if startsWith contentType ''image/'' then
               (case res_objectUrl res of
                  None \<Rightarrow> corsActions
                | Some objectUrl \<Rightarrow> previewActions objectUrl)
             else if includes_str contentType ''application/json'' then
               (let data = (case res_json res of None \<Rightarrow> JNull | Some d \<Rightarrow> d) in
                case findImageDeep data of
                  Some found \<Rightarrow>
                    if found \<noteq> [] then previewActions found
                    else noteActions ''Webhook responded but no image field was found.''
                | None \<Rightarrow> noteActions ''Webhook responded but no image field was found.'')
             else
               (case res_text res of
                  None \<Rightarrow> corsActions
                | Some txt \<Rightarrow>
                    if txt \<noteq> [] \<and> looksLikeUrl (trim txt) then previewActions (trim txt)
                    else if txt = [] then noteActions ''Webhook responded with no body.''
                    else noteActions ''Webhook responded but no image field was found.''))
          else
            [AddToast ''Webhook responded with an error'' Error,
             SetWebhookNote ''Webhook responded with an error.''])"

section \<open>App: state, toasts and timers\<close>

record ToastMessage =
  toast_id :: string
  toast_message :: string
  toast_type :: toastType

text \<open>
  The state of \<open>App\<close> that the webhook and the toasts use, with what the page keeps
  outside React: the clock in milliseconds (\<open>Date.now()\<close>), the callbacks registered with
  \<open>setTimeout\<close> that have not run yet (the time each is due and the toast id it
  captured), and the number of requests that have not settled.
\<close>

record app =
  webhookImage :: "string option"
  webhookLoading :: bool
  webhookNote :: "string option"
  toasts :: "ToastMessage list"
  clock :: nat
  timers :: "(nat \<times> string) list"
  inFlight :: nat

definition initial :: "nat \<Rightarrow> app" where
  "initial t0 =
     \<lparr>webhookImage = None, webhookLoading = False, webhookNote = None, toasts = [],
      clock = t0, timers = [], inFlight = 0\<rparr>"

definition addToast :: "string \<Rightarrow> toastType \<Rightarrow> app \<Rightarrow> app" where
  "addToast msg ty s =
     (let tid = toString (clock s) in
      s\<lparr>toasts := toasts s @ [\<lparr>toast_id = tid, toast_message = msg, toast_type = ty\<rparr>],
        timers := timers s @ [(clock s + 3000, tid)]\<rparr>)"

definition removeToast :: "string \<Rightarrow> app \<Rightarrow> app" where
  "removeToast tid s = s\<lparr>toasts := filter (\<lambda>toast. toast_id toast \<noteq> tid) (toasts s)\<rparr>"

fun perform :: "action \<Rightarrow> app \<Rightarrow> app" where
  "perform (SetWebhookImage img) s = s\<lparr>webhookImage := Some img\<rparr>"
| "perform (SetWebhookNote msg) s = s\<lparr>webhookNote := Some msg\<rparr>"
| "perform (AddToast msg ty) s = addToast msg ty s"

text \<open>The first three statements of \<open>postWebhook\<close>, before the request is sent.\<close>

definition postWebhook_begin :: "app \<Rightarrow> app" where
  "postWebhook_begin s =
     s\<lparr>webhookLoading := True, webhookImage := None, webhookNote := None,
       inFlight := inFlight s + 1\<rparr>"

text \<open>The rest of \<open>postWebhook\<close>, with its \<open>finally\<close> block.\<close>

definition postWebhook_end :: "'n fetched \<Rightarrow> app \<Rightarrow> app" where
  "postWebhook_end f s =
     (fold perform (postWebhook_settled f) s)\<lparr>webhookLoading := False, inFlight := inFlight s - 1\<rparr>"

text \<open>
  What can happen to the page: a submission (\<open>handleUrlSubmit\<close>), a request settling, a
  call of \<open>addToast\<close> by another handler, a toast being closed (\<open>removeToast\<close>), a timer
  callback running, and time passing.  A callback runs no earlier than it is due.  How
  late it may run is the parameter \<open>lag\<close>: time does not pass beyond \<open>due + lag\<close> while
  the callback is pending.
\<close>

datatype 'n event =
    Submit
  | Settle "'n fetched"
  | Toast string toastType
  | Dismiss string
  | Fire nat
  | Advance nat

fun step :: "nat \<Rightarrow> 'n event \<Rightarrow> app \<Rightarrow> app option" where
  "step lag Submit s = Some (postWebhook_begin s)"
| "step lag (Settle f) s = (if inFlight s = 0 then None else Some (postWebhook_end f s))"
| "step lag (Toast msg ty) s = Some (addToast msg ty s)"
| "step lag (Dismiss tid) s = Some (removeToast tid s)"
| "step lag (Fire i) s =
     (if i < length (timers s) \<and> fst (timers s ! i) \<le> clock s
      then Some (removeToast (snd (timers s ! i))
                  (s\<lparr>timers := take i (timers s) @ drop (Suc i) (timers s)\<rparr>))
      else None)"
| "step lag (Advance d) s =
     (if list_all (\<lambda>timer. clock s + d \<le> fst timer + lag) (timers s)
      then Some (s\<lparr>clock := clock s + d\<rparr>)
      else None)"

fun run :: "nat \<Rightarrow> 'n event list \<Rightarrow> app \<Rightarrow> app option" where
  "run lag [] s = Some s"
| "run lag (e # es) s = (case step lag e s of None \<Rightarrow> None | Some s' \<Rightarrow> run lag es s')"

text \<open>
  \<open>oneAtATime n es\<close>: with \<open>n\<close> requests pending, the events \<open>es\<close> contain no submission
  that is made while a request is pending.
\<close>

fun oneAtATime :: "nat \<Rightarrow> 'n event list \<Rightarrow> bool" where
  "oneAtATime n [] = True"
| "oneAtATime n (Submit # es) = (n = 0 \<and> oneAtATime 1 es)"
| "oneAtATime n (Settle f # es) = oneAtATime (n - 1) es"
| "oneAtATime n (e # es) = oneAtATime n es"

text \<open>
  Two invariants of the page.  \<open>settledInv\<close>: at most one request is pending; while one
  is, the page is loading and neither image nor note is stored; otherwise at most one of
  them is.  \<open>toastsInv\<close>: every toast in the queue carries the time of its insertion as
  its id and its timer is pending, and no pending timer is later than \<open>lag\<close>.
\<close>

definition settledInv :: "app \<Rightarrow> bool" where
  "settledInv s =
     (inFlight s \<le> 1 \<and>
      (if inFlight s = 1
       then webhookLoading s \<and> webhookImage s = None \<and> webhookNote s = None
       else webhookImage s = None \<or> webhookNote s = None))"

definition toastsInv :: "nat \<Rightarrow> app \<Rightarrow> bool" where
  "toastsInv lag s =
     ((\<forall>toast\<in>set (toasts s).
         \<exists>T. toast_id toast = toString T \<and> (T + 3000, toString T) \<in> set (timers s)) \<and>
      (\<forall>timer\<in>set (timers s). clock s \<le> fst timer + lag))"

section \<open>UrlForm: normalizeUrl, validateUrl and the checks of handleSubmit\<close>

definition normalizeUrl :: "string \<Rightarrow> string" where
  "normalizeUrl input =
     (let trimmed = trim input in
      if trimmed = [] then []
      else if startsWith trimmed ''http://'' \<or> startsWith trimmed ''https://'' then trimmed
      else ''https://'' @ trimmed)"

text \<open>
  The fields of a \<open>URL\<close> object that the program reads.  The constructor \<open>new URL(input)\<close>
  belongs to the platform; the functions that call it take it as the parameter \<open>URL\<close>,
  which returns \<open>None\<close> where the constructor throws.
\<close>

record url =
  protocol :: string
  pathname :: string

definition validateUrl :: "(string \<Rightarrow> url option) \<Rightarrow> string \<Rightarrow> bool" where
  "validateUrl URL input =
     (case URL input of
        None \<Rightarrow> False
      | Some urlObj \<Rightarrow> protocol urlObj = ''http:'' \<or> protocol urlObj = ''https:'')"

text \<open>\<open>handleSubmit\<close> up to the point where the URL is accepted.\<close>

datatype submitted = Refused string | Accepted string

definition handleSubmit :: "(string \<Rightarrow> url option) \<Rightarrow> string \<Rightarrow> submitted" where
  "handleSubmit URL input =
     (if trim input = [] then Refused ''Please enter a URL''
      else
        (let normalizedUrl = normalizeUrl input in
         if \<not> validateUrl URL normalizedUrl then Refused ''Please enter a valid URL''
         else Accepted normalizedUrl))"

section \<open>App: getFilename\<close>

definition getFilename :: "(string \<Rightarrow> url option) \<Rightarrow> string \<Rightarrow> string" where
  "getFilename URL urlStr =
     (if startsWith urlStr ''data:image/'' then ''preview.png''
      else
        (case URL urlStr of
           None \<Rightarrow> ''preview.png''
         | Some u \<Rightarrow>
             (let name = (case pop (split CHR ''/'' (pathname u)) of
                            None \<Rightarrow> ''preview''
                          | Some seg \<Rightarrow> if seg = [] then ''preview'' else seg)
              in if CHR ''.'' \<in> set name then name else name @ ''.png'')))"

text \<open>The words of the specification: the last segment of a path is what follows its
  last slash.\<close>

definition lastSegment :: "string \<Rightarrow> string" where
  "lastSegment path = rev (takeWhile (\<lambda>c. c \<noteq> CHR ''/'') (rev path))"

section \<open>A model of the URL constructor\<close>

text \<open>
  \<open>new URL(input)\<close> without a base URL, after the basic URL parser of the URL Standard,
  for strings of code units up to U+00FF, as far as the two fields above need it: the
  scheme, whether the authority (credentials, host, port) is accepted, and the path.
  A host that needs the Unicode tables of domain-to-ASCII (a code unit above U+007F,
  also percent-encoded, or a label that starts with \<open>xn--\<close>) is outside this model,
  which rejects it.  The theorems that hold for every constructor take the constructor
  as a parameter; this model serves to run the program on concrete ASCII inputs.
\<close>

definition code :: "char \<Rightarrow> nat" where
  "code c = of_char c"

definition isC0ControlOrSpace :: "char \<Rightarrow> bool" where
  "isC0ControlOrSpace c = (code c \<le> 32)"

definition isTabOrNewline :: "char \<Rightarrow> bool" where
  "isTabOrNewline c = (c = CHR 0x09 \<or> c = CHR 0x0A \<or> c = CHR 0x0D)"

definition isAsciiAlpha :: "char \<Rightarrow> bool" where
  "isAsciiAlpha c = ((65 \<le> code c \<and> code c \<le> 90) \<or> (97 \<le> code c \<and> code c \<le> 122))"

definition isAsciiDigit :: "char \<Rightarrow> bool" where
  "isAsciiDigit c = (48 \<le> code c \<and> code c \<le> 57)"

definition isHexDigit :: "char \<Rightarrow> bool" where
  "isHexDigit c =
     (isAsciiDigit c \<or> (65 \<le> code c \<and> code c \<le> 70) \<or> (97 \<le> code c \<and> code c \<le> 102))"

definition hexValue :: "char \<Rightarrow> nat" where
  "hexValue c =
     (if isAsciiDigit c then code c - 48
      else if 97 \<le> code c then code c - 87 else code c - 55)"

definition isSchemeChar :: "char \<Rightarrow> bool" where
  "isSchemeChar c =
     (isAsciiAlpha c \<or> isAsciiDigit c \<or> c = CHR ''+'' \<or> c = CHR ''-'' \<or> c = CHR ''.'')"

definition isSpecial :: "string \<Rightarrow> bool" where
  "isSpecial scheme =
     (scheme = ''ftp'' \<or> scheme = ''file'' \<or> scheme = ''http'' \<or> scheme = ''https'' \<or>
      scheme = ''ws'' \<or> scheme = ''wss'')"

definition backslash :: char where
  "backslash = CHR 0x5C"

subsection \<open>Percent-encoding\<close>

definition hexDigit :: "nat \<Rightarrow> char" where
  "hexDigit d = (if d < 10 then char_of (48 + d) else char_of (55 + d))"

definition percentEncodeByte :: "nat \<Rightarrow> string" where
  "percentEncodeByte b = [CHR ''%'', hexDigit (b div 16), hexDigit (b mod 16)]"

definition utf8Bytes :: "char \<Rightarrow> nat list" where
  "utf8Bytes c = (if code c < 128 then [code c] else [192 + code c div 64, 128 + code c mod 64])"

definition inC0ControlSet :: "char \<Rightarrow> bool" where
  "inC0ControlSet c = (code c < 32 \<or> 126 < code c)"

definition inPathSet :: "char \<Rightarrow> bool" where
  "inPathSet c =
     (inC0ControlSet c \<or> c = CHR 0x20 \<or> c = CHR 0x22 \<or> c = CHR ''#'' \<or> c = CHR ''<'' \<or>
      c = CHR ''>'' \<or> c = CHR ''?'' \<or> c = CHR 0x5E \<or> c = CHR 0x60 \<or> c = CHR ''{'' \<or>
      c = CHR ''}'')"

definition percentEncode :: "(char \<Rightarrow> bool) \<Rightarrow> char \<Rightarrow> string" where
  "percentEncode inSet c = (if inSet c then concat (map percentEncodeByte (utf8Bytes c)) else [c])"

text \<open>Percent-decoding, to bytes.\<close>

fun percentDecode :: "string \<Rightarrow> nat list" where
  "percentDecode (p # h # l # cs) =
     (if p = CHR ''%'' \<and> isHexDigit h \<and> isHexDigit l
      then (16 * hexValue h + hexValue l) # percentDecode cs
      else code p # percentDecode (h # l # cs))"
| "percentDecode (c # cs) = code c # percentDecode cs"
| "percentDecode [] = []"

subsection \<open>Hosts\<close>

definition isForbiddenHostCodePoint :: "char \<Rightarrow> bool" where
  "isForbiddenHostCodePoint c =
     (c = CHR 0x00 \<or> c = CHR 0x09 \<or> c = CHR 0x0A \<or> c = CHR 0x0D \<or> c = CHR 0x20 \<or>
      c = CHR ''#'' \<or> c = CHR ''/'' \<or> c = CHR '':'' \<or> c = CHR ''<'' \<or> c = CHR ''>'' \<or>
      c = CHR ''?'' \<or> c = CHR ''@'' \<or> c = CHR ''['' \<or> c = backslash \<or> c = CHR '']'' \<or>
      c = CHR 0x5E \<or> c = CHR ''|'')"

definition isForbiddenDomainCodePoint :: "char \<Rightarrow> bool" where
  "isForbiddenDomainCodePoint c =
     (isForbiddenHostCodePoint c \<or> code c < 32 \<or> c = CHR ''%'' \<or> c = CHR 0x7F)"

text \<open>The IPv4 number parser: \<open>None\<close> is failure.\<close>

fun digitsValue :: "nat \<Rightarrow> string \<Rightarrow> nat \<Rightarrow> nat option" where
  "digitsValue radix [] acc = Some acc"
| "digitsValue radix (c # cs) acc =
     (if isHexDigit c \<and> hexValue c < radix then digitsValue radix cs (radix * acc + hexValue c)
      else None)"

definition ipv4Number :: "string \<Rightarrow> nat option" where
  "ipv4Number part =
     (if part = [] then None
      else if 2 \<le> length part \<and> (take 2 part = ''0x'' \<or> take 2 part = ''0X'')
        then digitsValue 16 (drop 2 part) 0
      else if 2 \<le> length part \<and> hd part = CHR ''0'' then digitsValue 8 (tl part) 0
      else digitsValue 10 part 0)"

text \<open>The parts of a host between the dots, a last empty part removed when there is
  another part.\<close>

definition hostParts :: "string \<Rightarrow> string list" where
  "hostParts host =
     (let parts = split CHR ''.'' host in
      if 2 \<le> length parts \<and> last parts = [] then butlast parts else parts)"

definition endsInNumber :: "string \<Rightarrow> bool" where
  "endsInNumber host =
     (let parts = split CHR ''.'' host in
      if last parts = [] \<and> length parts = 1 then False
      else
        (let final = last (hostParts host) in
         (final \<noteq> [] \<and> list_all isAsciiDigit final) \<or> ipv4Number final \<noteq> None))"

fun allBut_last_small :: "nat list \<Rightarrow> bool" where
  "allBut_last_small [] = True"
| "allBut_last_small [n] = True"
| "allBut_last_small (n # m # ns) = (n \<le> 255 \<and> allBut_last_small (m # ns))"

definition ipv4Valid :: "string \<Rightarrow> bool" where
  "ipv4Valid host =
     (let parts = hostParts host in
      if 4 < length parts then False
      else if list_ex (\<lambda>part. ipv4Number part = None) parts then False
      else
        (let numbers = map (\<lambda>part. case ipv4Number part of None \<Rightarrow> 0 | Some n \<Rightarrow> n) parts in
         allBut_last_small numbers \<and> last numbers < 256 ^ (5 - length numbers)))"

text \<open>An IPv4 address at the end of an IPv6 address: four decimal numbers up to 255
  without leading zeros.\<close>

definition ipv4PieceValid :: "string \<Rightarrow> bool" where
  "ipv4PieceValid piece =
     (piece \<noteq> [] \<and> list_all isAsciiDigit piece \<and> (length piece = 1 \<or> hd piece \<noteq> CHR ''0'') \<and>
      (case digitsValue 10 piece 0 of None \<Rightarrow> False | Some v \<Rightarrow> v \<le> 255))"

definition ipv4InIpv6Valid :: "string \<Rightarrow> bool" where
  "ipv4InIpv6Valid s =
     (let parts = split CHR ''.'' s in length parts = 4 \<and> list_all ipv4PieceValid parts)"

text \<open>The IPv6 parser, as far as it decides between an address and failure:
  \<open>pieceIndex\<close>, whether \<open>compress\<close> is set, and the input from the pointer on.\<close>

definition hexRun :: "string \<Rightarrow> string" where
  "hexRun input = takeWhile isHexDigit (take 4 input)"

definition afterHexRun :: "string \<Rightarrow> string" where
  "afterHexRun input = drop (length (hexRun input)) input"

function ipv6Pieces :: "nat \<Rightarrow> bool \<Rightarrow> string \<Rightarrow> bool" where
  "ipv6Pieces pieceIndex compress input =
     (if input = [] then compress \<or> pieceIndex = 8
      else if pieceIndex = 8 then False
      else if hd input = CHR '':'' then
        (if compress then False else ipv6Pieces (pieceIndex + 1) True (tl input))
      else if afterHexRun input = [] then ipv6Pieces (pieceIndex + 1) compress []
      else if hd (afterHexRun input) = CHR ''.'' then
        hexRun input \<noteq> [] \<and> pieceIndex \<le> 6 \<and> ipv4InIpv6Valid input \<and>
        (compress \<or> pieceIndex + 2 = 8)
      else if hd (afterHexRun input) = CHR '':'' then
        (if tl (afterHexRun input) = [] then False
         else ipv6Pieces (pieceIndex + 1) compress (tl (afterHexRun input)))
      else False)"
  by pat_completeness auto
termination
  by (relation "measure (\<lambda>(pieceIndex, compress, input). length input)")
     (auto simp: afterHexRun_def)

definition ipv6Valid :: "string \<Rightarrow> bool" where
  "ipv6Valid input =
     (if input \<noteq> [] \<and> hd input = CHR '':'' then
        (if startsWith input ''::'' then ipv6Pieces 1 True (drop 2 input) else False)
      else ipv6Pieces 0 False input)"

text \<open>Whether the host parser accepts a host, for a special scheme (a domain or an
  address) and for another scheme (an opaque host).\<close>

text \<open>Domain-to-ASCII is modelled for a domain of ASCII code units without a label
  \<open>xn--\<close>, where it is ASCII lower case.  For any other domain \<open>domainValid\<close> answers
  \<open>False\<close>, which is not what the platform does for an internationalised host.\<close>

definition hasPunycodeLabel :: "string \<Rightarrow> bool" where
  "hasPunycodeLabel domain = list_ex (\<lambda>label. ciStartsWith label ''xn--'') (split CHR ''.'' domain)"

definition domainValid :: "string \<Rightarrow> bool" where
  "domainValid host =
     (let bytes = percentDecode host in
      if list_ex (\<lambda>b. 128 \<le> b) bytes then False
      else
        (let domain = map char_of bytes in
         if hasPunycodeLabel domain then False
         else
           (let asciiDomain = map asciiLower domain in
            if asciiDomain = [] then False
            else if list_ex isForbiddenDomainCodePoint asciiDomain then False
            else if endsInNumber asciiDomain then ipv4Valid asciiDomain
            else True)))"

definition hostValid :: "bool \<Rightarrow> string \<Rightarrow> bool" where
  "hostValid isOpaque host =
     (if host \<noteq> [] \<and> hd host = CHR ''['' then
        (if last host = CHR '']'' then ipv6Valid (butlast (tl host)) else False)
      else if isOpaque then list_all (\<lambda>c. \<not> isForbiddenHostCodePoint c) host
      else domainValid host)"

subsection \<open>Authority\<close>

definition isAuthorityEnd :: "bool \<Rightarrow> char \<Rightarrow> bool" where
  "isAuthorityEnd special c =
     (c = CHR ''/'' \<or> c = CHR ''?'' \<or> c = CHR ''#'' \<or> (special \<and> c = backslash))"

text \<open>The host state: the host ends at the first colon outside square brackets.\<close>

fun splitHostPort :: "bool \<Rightarrow> string \<Rightarrow> string \<Rightarrow> string \<times> string option" where
  "splitHostPort insideBrackets buffer [] = (buffer, None)"
| "splitHostPort insideBrackets buffer (c # cs) =
     (if c = CHR '':'' \<and> \<not> insideBrackets then (buffer, Some cs)
      else splitHostPort
             (if c = CHR ''['' then True else if c = CHR '']'' then False else insideBrackets)
             (buffer @ [c]) cs)"

definition portValid :: "string \<Rightarrow> bool" where
  "portValid port =
     (case digitsValue 10 port 0 of None \<Rightarrow> False | Some v \<Rightarrow> v \<le> 65535)"

definition authorityValid :: "bool \<Rightarrow> string \<Rightarrow> bool" where
  "authorityValid special authority =
     (let atSignSeen = (CHR ''@'' \<in> set authority);
          buffer = rev (takeWhile (\<lambda>c. c \<noteq> CHR ''@'') (rev authority)) in
      if atSignSeen \<and> buffer = [] then False
      else
        (case splitHostPort False [] buffer of
           (host, Some port) \<Rightarrow>
             if host = [] then False
             else if \<not> hostValid (\<not> special) host then False
             else portValid port
         | (host, None) \<Rightarrow>
             if special \<and> host = [] then False else hostValid (\<not> special) host))"

subsection \<open>Paths\<close>

definition ciEqual :: "string \<Rightarrow> string \<Rightarrow> bool" where
  "ciEqual a b = (map asciiLower a = map asciiLower b)"

definition isSingleDot :: "string \<Rightarrow> bool" where
  "isSingleDot buffer = (buffer = ''.'' \<or> ciEqual buffer ''%2e'')"

definition isDoubleDot :: "string \<Rightarrow> bool" where
  "isDoubleDot buffer =
     (buffer = ''..'' \<or> ciEqual buffer ''.%2e'' \<or> ciEqual buffer ''%2e.'' \<or>
      ciEqual buffer ''%2e%2e'')"

definition isWindowsDriveLetter :: "string \<Rightarrow> bool" where
  "isWindowsDriveLetter buffer =
     (length buffer = 2 \<and> isAsciiAlpha (hd buffer) \<and>
      (buffer ! 1 = CHR '':'' \<or> buffer ! 1 = CHR ''|''))"

definition shorten :: "bool \<Rightarrow> string list \<Rightarrow> string list" where
  "shorten isFile path =
     (if isFile \<and> length path = 1 \<and> isWindowsDriveLetter (hd path) \<and> hd path ! 1 = CHR '':''
      then path else butlast path)"

text \<open>The path state at the end of a segment; \<open>slash\<close> tells whether a slash ended it.\<close>

definition endSegment :: "bool \<Rightarrow> string \<Rightarrow> string list \<Rightarrow> bool \<Rightarrow> string list" where
  "endSegment isFile buffer path slash =
     (if isDoubleDot buffer then
        (if slash then shorten isFile path else shorten isFile path @ [[]])
      else if isSingleDot buffer then (if slash then path else path @ [[]])
      else if isFile \<and> path = [] \<and> isWindowsDriveLetter buffer
        then path @ [[hd buffer, CHR '':'']]
      else path @ [buffer])"

fun pathState :: "bool \<Rightarrow> bool \<Rightarrow> string \<Rightarrow> string list \<Rightarrow> string \<Rightarrow> string list" where
  "pathState special isFile buffer path [] = endSegment isFile buffer path False"
| "pathState special isFile buffer path (c # cs) =
     (if c = CHR ''/'' \<or> (special \<and> c = backslash)
        then pathState special isFile [] (endSegment isFile buffer path True) cs
      else if c = CHR ''?'' \<or> c = CHR ''#'' then endSegment isFile buffer path False
      else pathState special isFile (buffer @ percentEncode inPathSet c) path cs)"

text \<open>The path start state of a special scheme passes over one slash.\<close>

definition pathStartSpecial :: "bool \<Rightarrow> string \<Rightarrow> string list" where
  "pathStartSpecial isFile input =
     (if input \<noteq> [] \<and> (hd input = CHR ''/'' \<or> hd input = backslash)
      then pathState True isFile [] [] (tl input)
      else pathState True isFile [] [] input)"

definition pathStartOther :: "string \<Rightarrow> string list" where
  "pathStartOther input =
     (if input = [] \<or> hd input = CHR ''?'' \<or> hd input = CHR ''#'' then []
      else if hd input = CHR ''/'' then pathState False False [] [] (tl input)
      else pathState False False [] [] input)"

fun opaquePath :: "string \<Rightarrow> string" where
  "opaquePath [] = []"
| "opaquePath (c # cs) =
     (if c = CHR ''?'' \<or> c = CHR ''#'' then []
      else percentEncode inC0ControlSet c @ opaquePath cs)"

definition serializePath :: "string list \<Rightarrow> string" where
  "serializePath path = concat (map (\<lambda>segment. CHR ''/'' # segment) path)"

subsection \<open>The constructor\<close>

definition isSlash :: "char \<Rightarrow> bool" where
  "isSlash c = (c = CHR ''/'' \<or> c = backslash)"

text \<open>After \<open>scheme:\<close> of a special scheme other than \<open>file\<close>.\<close>

definition parseSpecial :: "string \<Rightarrow> string \<Rightarrow> url option" where
  "parseSpecial scheme rest =
     (let afterSlashes = dropWhile isSlash rest;
          authority = takeWhile (\<lambda>c. \<not> isAuthorityEnd True c) afterSlashes;
          remaining = dropWhile (\<lambda>c. \<not> isAuthorityEnd True c) afterSlashes in
      if authorityValid True authority
      then Some \<lparr>protocol = scheme @ '':'',
                 pathname = serializePath (pathStartSpecial False remaining)\<rparr>
      else None)"

text \<open>After \<open>file:\<close>: the file state, the file slash state and the file host state.\<close>

definition parseFile :: "string \<Rightarrow> url option" where
  "parseFile rest =
     (if rest \<noteq> [] \<and> isSlash (hd rest) then
        (if tl rest \<noteq> [] \<and> isSlash (hd (tl rest)) then
           (let buffer = takeWhile (\<lambda>c. \<not> isAuthorityEnd True c) (tl (tl rest));
                remaining = dropWhile (\<lambda>c. \<not> isAuthorityEnd True c) (tl (tl rest)) in
            if isWindowsDriveLetter buffer
              then Some \<lparr>protocol = ''file:'',
                         pathname = serializePath (pathState True True buffer [] remaining)\<rparr>
            else if buffer = [] \<or> hostValid False buffer
              then Some \<lparr>protocol = ''file:'',
                         pathname = serializePath (pathStartSpecial True remaining)\<rparr>
            else None)
         else Some \<lparr>protocol = ''file:'',
                    pathname = serializePath (pathState True True [] [] (tl rest))\<rparr>)
      else Some \<lparr>protocol = ''file:'', pathname = serializePath (pathState True True [] [] rest)\<rparr>)"

text \<open>After \<open>scheme:\<close> of any other scheme.\<close>

definition parseOther :: "string \<Rightarrow> string \<Rightarrow> url option" where
  "parseOther scheme rest =
     (if rest \<noteq> [] \<and> hd rest = CHR ''/'' then
        (if tl rest \<noteq> [] \<and> hd (tl rest) = CHR ''/'' then
           (let authority = takeWhile (\<lambda>c. \<not> isAuthorityEnd False c) (tl (tl rest));
                remaining = dropWhile (\<lambda>c. \<not> isAuthorityEnd False c) (tl (tl rest)) in
            if authorityValid False authority
            then Some \<lparr>protocol = scheme @ '':'',
                       pathname = serializePath (pathStartOther remaining)\<rparr>
            else None)
         else Some \<lparr>protocol = scheme @ '':'',
                    pathname = serializePath (pathState False False [] [] (tl rest))\<rparr>)
      else Some \<lparr>protocol = scheme @ '':'', pathname = opaquePath rest\<rparr>)"

definition new_URL :: "string \<Rightarrow> url option" where
  "new_URL input =
     (let s = filter (\<lambda>c. \<not> isTabOrNewline c)
                (rev (dropWhile isC0ControlOrSpace (rev (dropWhile isC0ControlOrSpace input)))) in
      if s = [] \<or> \<not> isAsciiAlpha (hd s) then None
      else
        (let scheme = map asciiLower (takeWhile isSchemeChar s);
             rest = dropWhile isSchemeChar s in
         if rest = [] \<or> hd rest \<noteq> CHR '':'' then None
         else if scheme = ''file'' then parseFile (tl rest)
         else if isSpecial scheme then parseSpecial scheme (tl rest)
         else parseOther scheme (tl rest)))"

section \<open>Facts about trim\<close>

lemma last_dropWhile: "dropWhile P ys \<noteq> [] \<Longrightarrow> last (dropWhile P ys) = last ys"
  by (induction ys) (auto split: if_splits)

lemma trim_Nil [simp]: "trim [] = []"
  by (simp add: trim_def)

lemma trim_ends:
  assumes "trim s \<noteq> []"
  shows "\<not> isWhiteSpace (hd (trim s))" and "\<not> isWhiteSpace (last (trim s))"
proof -
  let ?d = "dropWhile isWhiteSpace s"
  let ?e = "dropWhile isWhiteSpace (rev ?d)"
  from assms have e: "?e \<noteq> []" by (simp add: trim_def)
  have d: "?d \<noteq> []"
  proof
    assume "?d = []"
    then have "?e = []" by (simp only: rev.simps dropWhile.simps)
    with e show False by simp
  qed
  have "hd (trim s) = last ?e" using e by (simp add: trim_def hd_rev)
  also have "\<dots> = last (rev ?d)" using e by (rule last_dropWhile)
  also have "\<dots> = hd ?d" using d by (simp add: last_rev)
  finally show "\<not> isWhiteSpace (hd (trim s))" using hd_dropWhile [OF d] by simp
  have "last (trim s) = hd ?e" using e by (simp add: trim_def last_rev)
  then show "\<not> isWhiteSpace (last (trim s))" using hd_dropWhile [OF e] by simp
qed

lemma trim_fixed:
  assumes "s \<noteq> []" and "\<not> isWhiteSpace (hd s)" and "\<not> isWhiteSpace (last s)"
  shows "trim s = s"
proof -
  from assms(1,2) have d: "dropWhile isWhiteSpace s = s" by (cases s) auto
  from assms(1) obtain ys y where s: "s = ys @ [y]" by (cases s rule: rev_cases) auto
  with assms(3) have "dropWhile isWhiteSpace (rev s) = rev s" by simp
  with d show ?thesis by (simp add: trim_def)
qed

lemma trim_idem: "trim (trim s) = trim s"
proof (cases "trim s = []")
  case True
  then show ?thesis by simp
next
  case False
  then show ?thesis by (intro trim_fixed trim_ends)
qed

lemma trim_https: "trim s \<noteq> [] \<Longrightarrow> trim (''https://'' @ trim s) = ''https://'' @ trim s"
proof -
  assume ne: "trim s \<noteq> []"
  then have "\<not> isWhiteSpace (last (trim s))" by (rule trim_ends)
  then show ?thesis
    using ne by (intro trim_fixed) (simp_all add: isWhiteSpace_def)
qed

section \<open>normalizeUrl\<close>

text \<open>
  C10.  \<open>normalizeUrl\<close> is idempotent: its result is empty, or a trimmed text that begins
  with \<open>http://\<close> or \<open>https://\<close>, and it leaves both as they are.
\<close>

theorem normalizeUrl_idempotent: "normalizeUrl (normalizeUrl s) = normalizeUrl s"
proof -
  let ?t = "trim s"
  consider (empty) "?t = []"
    | (kept) "?t \<noteq> []" "startsWith ?t ''http://'' \<or> startsWith ?t ''https://''"
    | (added) "?t \<noteq> []" "\<not> (startsWith ?t ''http://'' \<or> startsWith ?t ''https://'')"
    by blast
  then show ?thesis
  proof cases
    case empty
    then show ?thesis by (simp add: normalizeUrl_def)
  next
    case kept
    then show ?thesis by (simp add: normalizeUrl_def trim_idem)
  next
    case added
    then have n: "normalizeUrl s = ''https://'' @ ?t" by (simp add: normalizeUrl_def)
    have "normalizeUrl (''https://'' @ ?t) = ''https://'' @ ?t"
      using trim_https [OF added(1)] by (simp add: normalizeUrl_def startsWith_def)
    with n show ?thesis by simp
  qed
qed

text \<open>
  C2, as the specification states it, fails for a text that is empty after trimming: it
  has neither prefix, and the result is the empty text, not \<open>https://\<close>.
\<close>

theorem normalizeUrl_empty_counterexample:
  "\<not> startsWith (trim '' '') ''http://'' \<and> \<not> startsWith (trim '' '') ''https://'' \<and>
   normalizeUrl '' '' = [] \<and> normalizeUrl '' '' \<noteq> ''https://'' @ trim '' ''"
  by (simp add: normalizeUrl_def trim_def startsWith_def isWhiteSpace_def)

text \<open>
  C2, amended.  For a text that after trimming is not empty and has neither prefix, the
  result is the trimmed text after \<open>https://\<close>; the prefix stands once, since what
  follows it is the trimmed text, which has neither prefix.  For a text that is empty
  after trimming the result is empty.
\<close>

theorem normalizeUrl_prepends_once:
  assumes "\<not> startsWith (trim input) ''http://''" and "\<not> startsWith (trim input) ''https://''"
  shows "normalizeUrl input = (if trim input = [] then [] else ''https://'' @ trim input) \<and>
         (if trim input = [] then normalizeUrl input = []
          else startsWith (normalizeUrl input) ''https://'' \<and>
               drop 8 (normalizeUrl input) = trim input \<and>
               \<not> startsWith (drop 8 (normalizeUrl input)) ''http://'' \<and>
               \<not> startsWith (drop 8 (normalizeUrl input)) ''https://'')"
  using assms by (simp add: normalizeUrl_def startsWith_def)

theorem normalizeUrl_prepends_once_witness:
  "\<not> startsWith (trim '' example.com '') ''http://'' \<and>
   \<not> startsWith (trim '' example.com '') ''https://'' \<and>
   normalizeUrl '' example.com '' = ''https://example.com''"
proof -
  have t: "trim '' example.com '' = ''example.com''"
    by (simp add: trim_def isWhiteSpace_def)
  have h1: "\<not> startsWith (trim '' example.com '') ''http://''"
    by (simp add: t startsWith_def)
  have h2: "\<not> startsWith (trim '' example.com '') ''https://''"
    by (simp add: t startsWith_def)
  show ?thesis
    using h1 h2 normalizeUrl_prepends_once [OF h1 h2] by (simp add: t)
qed

section \<open>The search for an image\<close>

lemma looksLikeUrl_Nil: "\<not> looksLikeUrl []"
  by (simp add: looksLikeUrl_def ciStartsWith_def)

lemma nullishCoalesce_eq:
  "nullishCoalesce a b = (if a = None \<or> a = Some JNull then b else a)"
  by (cases "(a, b)" rule: nullishCoalesce.cases) auto

lemma firstPresent_Cons:
  "firstPresent (a # os) = (if a = None \<or> a = Some JNull then firstPresent os else a)"
  by (cases a) (auto simp: firstPresent_def List.map_filter_simps)

lemma firstPresent_Nil: "firstPresent [] = None"
  by (simp add: firstPresent_def List.map_filter_simps)

lemma foldl_nullishCoalesce:
  "(foldl nullishCoalesce a os = Some v \<and> v \<noteq> JNull) \<longleftrightarrow> firstPresent (a # os) = Some v"
proof (induction os arbitrary: a)
  case Nil
  show ?case by (auto simp: firstPresent_Cons firstPresent_Nil)
next
  case (Cons b os)
  have "firstPresent (nullishCoalesce a b # os) = firstPresent (a # b # os)"
    by (simp add: firstPresent_Cons nullishCoalesce_eq)
  with Cons [of "nullishCoalesce a b"] show ?case by simp
qed

lemma direct_foldl:
  "direct obj = foldl nullishCoalesce (map_of obj ''image'')
     (map (map_of obj) [''imageUrl'', ''image_url'', ''thumbnail'', ''thumb'', ''url''])"
  by (simp add: direct_def)

lemma direct_firstNamed:
  "firstNamed obj = Some v \<longleftrightarrow> direct obj = Some v \<and> v \<noteq> JNull"
  unfolding direct_foldl firstNamed_def foldl_nullishCoalesce
  by (simp add: priorityNames_def)

lemma direct_value:
  "direct obj = Some v \<Longrightarrow> v \<in> set (map snd obj)"
  by (auto simp: direct_def nullishCoalesce_eq split: if_splits dest!: map_of_SomeD) force+

lemma string_held: "JString s \<in> set vs \<Longrightarrow> s \<in> set (stringValues_list vs)"
  by (induction vs) auto

lemma stringValues_list_object:
  "isObject val \<Longrightarrow> stringValues_list (val # rest) = stringValues val @ stringValues_list rest"
  by (cases val) simp_all

lemma stringValues_list_scalar:
  "\<not> isObject val \<Longrightarrow> \<forall>x. val \<noteq> JString x \<Longrightarrow>
   stringValues_list (val # rest) = stringValues_list rest"
  by (cases val) simp_all

lemma keysLoop_string:
  "keysLoop (JString x # rest) = (if looksLikeUrl x then Some x else keysLoop rest)"
  by simp

lemma keysLoop_object:
  "isObject val \<Longrightarrow>
   keysLoop (val # rest) =
     (case findImageDeep val of
        Some found \<Rightarrow> if found \<noteq> [] then Some found else keysLoop rest
      | None \<Rightarrow> keysLoop rest)"
  by (cases val) (simp_all del: findImageDeep.simps(1,2))

lemma keysLoop_scalar:
  "\<not> isObject val \<Longrightarrow> \<forall>x. val \<noteq> JString x \<Longrightarrow> keysLoop (val # rest) = keysLoop rest"
  by (cases val) simp_all

lemma findImageDeep_object:
  "findImageDeep (JObject obj) =
     (if (\<exists>s. direct obj = Some (JString s) \<and> looksLikeUrl s)
      then (case direct obj of Some (JString s) \<Rightarrow> Some s | _ \<Rightarrow> None)
      else keysLoop (map snd obj))"
  by (auto split: option.splits json.splits)

lemma keysLoop_sound_step:
  "\<forall>v\<in>set vs. findImageDeep v = Some s \<longrightarrow> s \<in> set (stringValues v) \<and> looksLikeUrl s \<Longrightarrow>
   keysLoop vs = Some s \<Longrightarrow> s \<in> set (stringValues_list vs) \<and> looksLikeUrl s"
proof (induction vs)
  case Nil
  then show ?case by simp
next
  case (Cons val rest)
  have rest: "keysLoop rest = Some s \<Longrightarrow> s \<in> set (stringValues_list rest) \<and> looksLikeUrl s"
    using Cons.IH Cons.prems(1) by (meson list.set_intros(2))
  have here: "findImageDeep val = Some s \<Longrightarrow> s \<in> set (stringValues val) \<and> looksLikeUrl s"
    using Cons.prems(1) by simp
  show ?case
  proof (cases "isObject val")
    case True
    have sv: "stringValues_list (val # rest) = stringValues val @ stringValues_list rest"
      using True by (rule stringValues_list_object)
    from Cons.prems(2) have "findImageDeep val = Some s \<or> keysLoop rest = Some s"
      unfolding keysLoop_object [OF True] by (simp split: option.splits if_splits)
    with rest here sv show ?thesis by auto
  next
    case False
    show ?thesis
    proof (cases "\<exists>x. val = JString x")
      case True
      then obtain x where x: "val = JString x" by blast
      from Cons.prems(2) have "(looksLikeUrl x \<and> s = x) \<or> keysLoop rest = Some s"
        unfolding x keysLoop_string by (simp split: if_splits)
      with rest x show ?thesis by auto
    next
      case nostr: False
      then have ns: "\<forall>x. val \<noteq> JString x" by blast
      from Cons.prems(2) have "keysLoop rest = Some s"
        unfolding keysLoop_scalar [OF False ns] .
      with rest show ?thesis using stringValues_list_scalar [OF False ns] by simp
    qed
  qed
qed

lemma findImageDeep_sound:
  "findImageDeep (v :: 'n json) = Some s \<Longrightarrow> s \<in> set (stringValues v) \<and> looksLikeUrl s"
proof (induction v)
  case (JArray items)
  have "keysLoop items = Some s" using JArray.prems by simp
  moreover have "\<forall>v\<in>set items. findImageDeep v = Some s \<longrightarrow>
                   s \<in> set (stringValues v) \<and> looksLikeUrl s"
    using JArray.IH by blast
  ultimately have "s \<in> set (stringValues_list items) \<and> looksLikeUrl s"
    by (rule keysLoop_sound_step [rotated])
  then show ?case by simp
next
  case (JObject obj)
  show ?case
  proof (cases "\<exists>x. direct obj = Some (JString x) \<and> looksLikeUrl x")
    case True
    then obtain x where x: "direct obj = Some (JString x)" "looksLikeUrl x" by blast
    with JObject.prems have "s = x" by simp
    moreover from x(1) have "JString x \<in> set (map snd obj)" by (rule direct_value)
    then have "x \<in> set (stringValues_list (map snd obj))" by (rule string_held)
    ultimately show ?thesis using x(2) by simp
  next
    case False
    with JObject.prems have loop: "keysLoop (map snd obj) = Some s"
      by (simp only: findImageDeep_object if_False)
    have "\<forall>v\<in>set (map snd obj). findImageDeep v = Some s \<longrightarrow>
               s \<in> set (stringValues v) \<and> looksLikeUrl s"
      using JObject.IH by (auto simp: snds.simps)
    then have "s \<in> set (stringValues_list (map snd obj)) \<and> looksLikeUrl s"
      using loop by (rule keysLoop_sound_step)
    then show ?thesis by simp
  qed
qed simp_all

lemma findImageDeep_truthy: "findImageDeep v = Some s \<Longrightarrow> s \<noteq> []"
  using findImageDeep_sound looksLikeUrl_Nil by blast

lemma keysLoop_complete_step:
  "\<forall>v\<in>set vs. findImageDeep v = None \<longrightarrow> \<not> list_ex looksLikeUrl (stringValues v) \<Longrightarrow>
   keysLoop vs = None \<Longrightarrow> \<not> list_ex looksLikeUrl (stringValues_list vs)"
proof (induction vs)
  case Nil
  then show ?case by simp
next
  case (Cons val rest)
  have rest: "keysLoop rest = None \<Longrightarrow> \<not> list_ex looksLikeUrl (stringValues_list rest)"
    using Cons.IH Cons.prems(1) by (meson list.set_intros(2))
  have here: "findImageDeep val = None \<Longrightarrow> \<not> list_ex looksLikeUrl (stringValues val)"
    using Cons.prems(1) by simp
  show ?case
  proof (cases "isObject val")
    case True
    have sv: "stringValues_list (val # rest) = stringValues val @ stringValues_list rest"
      using True by (rule stringValues_list_object)
    have "findImageDeep val = None \<and> keysLoop rest = None"
    proof (cases "findImageDeep val")
      case None
      with Cons.prems(2) show ?thesis unfolding keysLoop_object [OF True] by simp
    next
      case (Some found)
      then have "found \<noteq> []" by (rule findImageDeep_truthy)
      with Some Cons.prems(2) show ?thesis unfolding keysLoop_object [OF True] by simp
    qed
    with rest here sv show ?thesis by simp
  next
    case False
    show ?thesis
    proof (cases "\<exists>x. val = JString x")
      case True
      then obtain x where x: "val = JString x" by blast
      from Cons.prems(2) have "\<not> looksLikeUrl x \<and> keysLoop rest = None"
        unfolding x keysLoop_string by (simp split: if_splits)
      with rest x show ?thesis by simp
    next
      case nostr: False
      then have ns: "\<forall>x. val \<noteq> JString x" by blast
      from Cons.prems(2) have "keysLoop rest = None"
        unfolding keysLoop_scalar [OF False ns] .
      with rest show ?thesis using stringValues_list_scalar [OF False ns] by simp
    qed
  qed
qed

lemma findImageDeep_complete:
  "findImageDeep (v :: 'n json) = None \<Longrightarrow> \<not> list_ex looksLikeUrl (stringValues v)"
proof (induction v)
  case (JArray items)
  have "keysLoop items = None" using JArray.prems by simp
  moreover have "\<forall>v\<in>set items. findImageDeep v = None \<longrightarrow>
                   \<not> list_ex looksLikeUrl (stringValues v)"
    using JArray.IH by blast
  ultimately have "\<not> list_ex looksLikeUrl (stringValues_list items)"
    by (rule keysLoop_complete_step [rotated])
  then show ?case by simp
next
  case (JObject obj)
  have nohit: "\<not> (\<exists>x. direct obj = Some (JString x) \<and> looksLikeUrl x)"
  proof
    assume "\<exists>x. direct obj = Some (JString x) \<and> looksLikeUrl x"
    then obtain x where "direct obj = Some (JString x)" "looksLikeUrl x" by blast
    then have "findImageDeep (JObject obj) = Some x" by simp
    with JObject.prems show False by simp
  qed
  with JObject.prems have loop: "keysLoop (map snd obj) = None"
    by (simp only: findImageDeep_object if_False)
  have "\<forall>v\<in>set (map snd obj). findImageDeep v = None \<longrightarrow>
           \<not> list_ex looksLikeUrl (stringValues v)"
    using JObject.IH by (auto simp: snds.simps)
  then have "\<not> list_ex looksLikeUrl (stringValues_list (map snd obj))"
    using loop by (rule keysLoop_complete_step)
  then show ?case by simp
qed simp_all

lemma findImageDeep_None_iff:
  "findImageDeep v = None \<longleftrightarrow> \<not> list_ex looksLikeUrl (stringValues v)"
proof
  assume "findImageDeep v = None"
  then show "\<not> list_ex looksLikeUrl (stringValues v)" by (rule findImageDeep_complete)
next
  assume none: "\<not> list_ex looksLikeUrl (stringValues v)"
  show "findImageDeep v = None"
  proof (cases "findImageDeep v")
    case None
    then show ?thesis .
  next
    case (Some s)
    then have "s \<in> set (stringValues v) \<and> looksLikeUrl s" by (rule findImageDeep_sound)
    with none show ?thesis by (auto simp: list_ex_iff)
  qed
qed

lemma findImageDeep_priority:
  "firstNamed obj = Some (JString s) \<Longrightarrow> looksLikeUrl s \<Longrightarrow> findImageDeep (JObject obj) = Some s"
  by (simp add: direct_firstNamed)

section \<open>The order of the search\<close>

lemma find_append_first:
  "List.find P (xs @ ys) = (case List.find P xs of None \<Rightarrow> List.find P ys | Some x \<Rightarrow> Some x)"
  by (induction xs) auto

lemma examined_list_object:
  "isObject val \<Longrightarrow> examined_list (val # rest) = examined val @ examined_list rest"
  by (cases val) (simp_all del: examined.simps(1,2))

lemma examined_list_scalar:
  "\<not> isObject val \<Longrightarrow> \<forall>x. val \<noteq> JString x \<Longrightarrow> examined_list (val # rest) = examined_list rest"
  by (cases val) simp_all

lemma keysLoop_examined:
  "\<forall>v\<in>set vs. findImageDeep v = List.find looksLikeUrl (examined v) \<Longrightarrow>
   keysLoop vs = List.find looksLikeUrl (examined_list vs)"
proof (induction vs)
  case Nil
  show ?case by simp
next
  case (Cons val rest)
  have rest: "keysLoop rest = List.find looksLikeUrl (examined_list rest)"
    using Cons.IH Cons.prems by (meson list.set_intros(2))
  have here: "findImageDeep val = List.find looksLikeUrl (examined val)"
    using Cons.prems by simp
  show ?case
  proof (cases "isObject val")
    case True
    have "keysLoop (val # rest) =
            (case findImageDeep val of None \<Rightarrow> keysLoop rest | Some found \<Rightarrow> Some found)"
    proof (cases "findImageDeep val")
      case None
      then show ?thesis unfolding keysLoop_object [OF True] by simp
    next
      case (Some found)
      then have "found \<noteq> []" by (rule findImageDeep_truthy)
      with Some show ?thesis unfolding keysLoop_object [OF True] by simp
    qed
    then show ?thesis
      unfolding examined_list_object [OF True] find_append_first here rest .
  next
    case False
    show ?thesis
    proof (cases "\<exists>x. val = JString x")
      case True
      then obtain x where x: "val = JString x" by blast
      show ?thesis unfolding x keysLoop_string using rest by simp
    next
      case nostr: False
      then have ns: "\<forall>x. val \<noteq> JString x" by blast
      show ?thesis
        unfolding keysLoop_scalar [OF False ns] examined_list_scalar [OF False ns] by (rule rest)
    qed
  qed
qed

lemma firstNamed_string:
  "firstNamed obj = Some (JString s) \<longleftrightarrow> direct obj = Some (JString s)"
  by (simp add: direct_firstNamed)

lemma findImageDeep_examined:
  "findImageDeep (v :: 'n json) = List.find looksLikeUrl (examined v)"
proof (induction v)
  case (JArray items)
  have "\<forall>v\<in>set items. findImageDeep v = List.find looksLikeUrl (examined v)"
    using JArray.IH by blast
  then have "keysLoop items = List.find looksLikeUrl (examined_list items)"
    by (rule keysLoop_examined)
  then show ?case by simp
next
  case (JObject obj)
  have "\<forall>v\<in>set (map snd obj). findImageDeep v = List.find looksLikeUrl (examined v)"
    using JObject.IH by (auto simp: snds.simps)
  then have loop: "keysLoop (map snd obj) = List.find looksLikeUrl (examined_list (map snd obj))"
    by (rule keysLoop_examined)
  show ?case
  proof (cases "\<exists>s. direct obj = Some (JString s)")
    case True
    then obtain s where d: "direct obj = Some (JString s)" by blast
    then have f: "firstNamed obj = Some (JString s)" by (simp add: firstNamed_string)
    show ?thesis by (simp add: d f loop)
  next
    case False
    then have nf: "\<forall>s. firstNamed obj \<noteq> Some (JString s)" by (simp add: firstNamed_string)
    from False have a: "findImageDeep (JObject obj) = keysLoop (map snd obj)"
      by (auto split: option.splits json.splits)
    from nf have b: "(case firstNamed obj of Some (JString s) \<Rightarrow> [s] | _ \<Rightarrow> []) = []"
      by (auto split: option.splits json.splits)
    show ?thesis by (simp only: a examined.simps b append_Nil loop)
  qed
qed simp_all

section \<open>The response of the webhook\<close>

text \<open>
  C1, as the specification states it, fails in four ways.  The search enters arrays: the
  code makes no difference between an array and another object, and in the first object
  below, where no string is reached without entering an array, it returns the string in
  the array, so the image is shown where the claim expects the note.  The six names are
  not all looked at first: the code looks only at the first of them that has a value
  other than \<open>null\<close>, and in the second object below, where \<open>image\<close> holds a text that does
  not match and \<open>thumb\<close> holds one that does, it returns the value of \<open>a\<close>, which comes
  before \<open>thumb\<close> in the order of the keys.  A body that is itself a matching string is
  the value of no property, and gives the note.  And the body of a response with an error
  status is not searched at all.
\<close>

theorem findImageDeep_counterexample:
  "stringValues_noArrays (JObject [(''images'', JArray [JString ''https://x/y.png''])] :: nat json) = [] \<and>
   findImageDeep (JObject [(''images'', JArray [JString ''https://x/y.png''])] :: nat json)
     = Some ''https://x/y.png'' \<and>
   postWebhook_settled
     (Resolved \<lparr>res_status = 200, res_contentType = Some ''application/json'',
                res_objectUrl = None,
                res_json = Some (JObject [(''images'', JArray [JString ''https://x/y.png''])]
                                 :: nat json),
                res_text = None\<rparr>) =
   [SetWebhookImage ''https://x/y.png'', AddToast ''Preview received from webhook'' Success] \<and>
   map_of [(''image'', JString ''none''), (''a'', JString ''https://a/''),
           (''thumb'', JString ''https://t/'' :: nat json)] ''thumb'' = Some (JString ''https://t/'') \<and>
   looksLikeUrl ''https://t/'' \<and>
   findImageDeep (JObject [(''image'', JString ''none''), (''a'', JString ''https://a/''),
                           (''thumb'', JString ''https://t/'')] :: nat json) = Some ''https://a/'' \<and>
   postWebhook_settled
     (Resolved \<lparr>res_status = 200, res_contentType = Some ''application/json'',
                res_objectUrl = None,
                res_json = Some (JObject [(''image'', JString ''none''), (''a'', JString ''https://a/''),
                                          (''thumb'', JString ''https://t/'')] :: nat json),
                res_text = None\<rparr>) =
   [SetWebhookImage ''https://a/'', AddToast ''Preview received from webhook'' Success] \<and>
   looksLikeUrl ''https://x/y.png'' \<and>
   postWebhook_settled
     (Resolved \<lparr>res_status = 200, res_contentType = Some ''application/json'',
                res_objectUrl = None,
                res_json = Some (JString ''https://x/y.png'' :: nat json),
                res_text = None\<rparr>) =
   [SetWebhookNote ''Webhook responded but no image field was found.'',
    AddToast ''URL sent successfully'' Success] \<and>
   postWebhook_settled
     (Resolved \<lparr>res_status = 404, res_contentType = Some ''application/json'',
                res_objectUrl = None,
                res_json = Some (JObject [(''image'', JString ''https://x/y.png'')] :: nat json),
                res_text = None\<rparr>) =
   [AddToast ''Webhook responded with an error'' Error,
    SetWebhookNote ''Webhook responded with an error.'']"
proof -
  have status: "postWebhook_settled
     (Resolved \<lparr>res_status = 404, res_contentType = Some ''application/json'',
                res_objectUrl = None,
                res_json = Some (JObject [(''image'', JString ''https://x/y.png'')] :: nat json),
                res_text = None\<rparr>) =
   [AddToast ''Webhook responded with an error'' Error,
    SetWebhookNote ''Webhook responded with an error.'']"
    by (simp add: postWebhook_settled_def ok_def)
  have search: "stringValues_noArrays (JObject [(''images'', JArray [JString ''https://x/y.png''])] :: nat json) = [] \<and>
   findImageDeep (JObject [(''images'', JArray [JString ''https://x/y.png''])] :: nat json)
     = Some ''https://x/y.png'' \<and>
   postWebhook_settled
     (Resolved \<lparr>res_status = 200, res_contentType = Some ''application/json'',
                res_objectUrl = None,
                res_json = Some (JObject [(''images'', JArray [JString ''https://x/y.png''])]
                                 :: nat json),
                res_text = None\<rparr>) =
   [SetWebhookImage ''https://x/y.png'', AddToast ''Preview received from webhook'' Success] \<and>
   map_of [(''image'', JString ''none''), (''a'', JString ''https://a/''),
           (''thumb'', JString ''https://t/'' :: nat json)] ''thumb'' = Some (JString ''https://t/'') \<and>
   looksLikeUrl ''https://t/'' \<and>
   findImageDeep (JObject [(''image'', JString ''none''), (''a'', JString ''https://a/''),
                           (''thumb'', JString ''https://t/'')] :: nat json) = Some ''https://a/'' \<and>
   postWebhook_settled
     (Resolved \<lparr>res_status = 200, res_contentType = Some ''application/json'',
                res_objectUrl = None,
                res_json = Some (JObject [(''image'', JString ''none''), (''a'', JString ''https://a/''),
                                          (''thumb'', JString ''https://t/'')] :: nat json),
                res_text = None\<rparr>) =
   [SetWebhookImage ''https://a/'', AddToast ''Preview received from webhook'' Success] \<and>
   looksLikeUrl ''https://x/y.png'' \<and>
   postWebhook_settled
     (Resolved \<lparr>res_status = 200, res_contentType = Some ''application/json'',
                res_objectUrl = None,
                res_json = Some (JString ''https://x/y.png'' :: nat json),
                res_text = None\<rparr>) =
   [SetWebhookNote ''Webhook responded but no image field was found.'',
    AddToast ''URL sent successfully'' Success]"
    by code_simp
  from search status show ?thesis by (simp only: simp_thms)
qed

text \<open>
  C1, amended.  For a successful response with a JSON content type whose body parses to
  the value \<open>v\<close>: the image is set to the string the search finds, and the note that no
  image field was found is set when it finds none.  The search finds the first string
  that matches the pattern among the strings it examines, in the order \<open>examined v\<close>:
  at every object, nested or not, first the value of the first of the six names that has
  a value other than \<open>null\<close>, then the values in the order of the keys, objects and
  arrays searched depth first where they stand, arrays element by element.  So a string
  it finds is a string value in \<open>v\<close> that matches the pattern; it finds none exactly
  when no string value in the objects and arrays of \<open>v\<close> matches; when the first of the
  six names with a value other than \<open>null\<close> holds a matching string, that string is
  the result for the object; and a body that is itself a string, a number, a boolean or
  \<open>null\<close> gives the note.
\<close>

theorem postWebhook_json_search:
  assumes "ok res"
    and "\<not> startsWith (contentTypeOf res) ''image/''"
    and "includes_str (contentTypeOf res) ''application/json''"
    and "res_json res = Some v"
  shows "postWebhook_settled (Resolved res) =
           (case findImageDeep v of
              Some s \<Rightarrow> [SetWebhookImage s, AddToast ''Preview received from webhook'' Success]
            | None \<Rightarrow> [SetWebhookNote ''Webhook responded but no image field was found.'',
                       AddToast ''URL sent successfully'' Success]) \<and>
         findImageDeep v = List.find looksLikeUrl (examined v) \<and>
         (\<forall>s. findImageDeep v = Some s \<longrightarrow> s \<in> set (stringValues v) \<and> looksLikeUrl s) \<and>
         (findImageDeep v = None \<longleftrightarrow> \<not> list_ex looksLikeUrl (stringValues v)) \<and>
         (\<forall>obj s. firstNamed obj = Some (JString s) \<and> looksLikeUrl s \<longrightarrow>
                  findImageDeep (JObject obj :: 'n json) = Some s) \<and>
         (\<not> isObject v \<longrightarrow> findImageDeep v = None)"
proof -
  have settled: "postWebhook_settled (Resolved res) =
           (case findImageDeep v of
              Some s \<Rightarrow> [SetWebhookImage s, AddToast ''Preview received from webhook'' Success]
            | None \<Rightarrow> [SetWebhookNote ''Webhook responded but no image field was found.'',
                       AddToast ''URL sent successfully'' Success])"
  proof (cases "findImageDeep v")
    case None
    with assms show ?thesis
      by (simp add: postWebhook_settled_def noteActions_def)
  next
    case (Some s)
    then have "s \<noteq> []" by (rule findImageDeep_truthy)
    with Some assms show ?thesis
      by (simp add: postWebhook_settled_def previewActions_def)
  qed
  have order: "findImageDeep v = List.find looksLikeUrl (examined v)"
    by (rule findImageDeep_examined)
  have sound: "\<forall>s. findImageDeep v = Some s \<longrightarrow> s \<in> set (stringValues v) \<and> looksLikeUrl s"
    using findImageDeep_sound by blast
  have first: "\<forall>obj s. firstNamed obj = Some (JString s) \<and> looksLikeUrl s \<longrightarrow>
                  findImageDeep (JObject obj :: 'n json) = Some s"
    using findImageDeep_priority by blast
  have scalar: "\<not> isObject v \<longrightarrow> findImageDeep v = None"
    by (cases v) simp_all
  from settled order sound findImageDeep_None_iff [of v] first scalar
  show ?thesis by (intro conjI)
qed

theorem postWebhook_json_search_witness:
  "postWebhook_settled
     (Resolved \<lparr>res_status = 200, res_contentType = Some ''application/json'',
                res_objectUrl = None,
                res_json = Some (JObject [(''data'', JObject [(''thumb'', JString ''https://x/y.png'')])]
                                 :: nat json),
                res_text = None\<rparr>) =
   [SetWebhookImage ''https://x/y.png'', AddToast ''Preview received from webhook'' Success] \<and>
   examined (JObject [(''z'', JString ''none''),
                      (''data'', JObject [(''a'', JString ''https://a/''),
                                          (''thumb'', JString ''https://t/'')]),
                      (''b'', JArray [JString ''https://b/''])] :: nat json) =
     [''none'', ''https://t/'', ''https://a/'', ''https://t/'', ''https://b/''] \<and>
   findImageDeep (JObject [(''z'', JString ''none''),
                           (''data'', JObject [(''a'', JString ''https://a/''),
                                               (''thumb'', JString ''https://t/'')]),
                           (''b'', JArray [JString ''https://b/''])] :: nat json) =
     Some ''https://t/''"
proof -
  let ?v = "JObject [(''data'', JObject [(''thumb'', JString ''https://x/y.png'')])] :: nat json"
  let ?res = "\<lparr>res_status = 200, res_contentType = Some ''application/json'',
                res_objectUrl = None, res_json = Some ?v, res_text = None\<rparr>"
  let ?w = "JObject [(''z'', JString ''none''),
                     (''data'', JObject [(''a'', JString ''https://a/''),
                                         (''thumb'', JString ''https://t/'')]),
                     (''b'', JArray [JString ''https://b/''])] :: nat json"
  let ?r2 = "\<lparr>res_status = 200, res_contentType = Some ''application/json'',
                res_objectUrl = None, res_json = Some ?w, res_text = None\<rparr>"
  have h1: "ok ?res" by (simp add: ok_def)
  have h2: "\<not> startsWith (contentTypeOf ?res) ''image/''"
    by (simp add: contentTypeOf_def startsWith_def)
  have h3: "includes_str (contentTypeOf ?res) ''application/json''"
    by (simp add: contentTypeOf_def startsWith_def)
  have h4: "res_json ?res = Some ?v" by simp
  have f: "findImageDeep ?v = Some ''https://x/y.png''" by code_simp
  from postWebhook_json_search [OF h1 h2 h3 h4]
  have "postWebhook_settled (Resolved ?res) =
           (case findImageDeep ?v of
              Some s \<Rightarrow> [SetWebhookImage s, AddToast ''Preview received from webhook'' Success]
            | None \<Rightarrow> [SetWebhookNote ''Webhook responded but no image field was found.'',
                       AddToast ''URL sent successfully'' Success])"
    by (rule conjunct1)
  then have one: "postWebhook_settled (Resolved ?res) =
      [SetWebhookImage ''https://x/y.png'', AddToast ''Preview received from webhook'' Success]"
    by (simp only: f option.case)
  have g1: "ok ?r2" by (simp add: ok_def)
  have g2: "\<not> startsWith (contentTypeOf ?r2) ''image/''"
    by (simp add: contentTypeOf_def startsWith_def)
  have g3: "includes_str (contentTypeOf ?r2) ''application/json''"
    by (simp add: contentTypeOf_def startsWith_def)
  have g4: "res_json ?r2 = Some ?w" by simp
  have e: "examined ?w = [''none'', ''https://t/'', ''https://a/'', ''https://t/'', ''https://b/'']"
    by code_simp
  have l: "List.find looksLikeUrl [''none'', ''https://t/'', ''https://a/'', ''https://t/'', ''https://b/'']
             = Some ''https://t/''"
    by code_simp
  from postWebhook_json_search [OF g1 g2 g3 g4]
  have "findImageDeep ?w = List.find looksLikeUrl (examined ?w)" by (elim conjE)
  then have two: "findImageDeep ?w = Some ''https://t/''" by (simp only: e l)
  from one e two show ?thesis by (intro conjI)
qed

text \<open>
  C4.  For a response whose status is outside 200 to 299, whatever its content type and
  body, \<open>postWebhook\<close> raises the error toast and sets the error note, and nothing else:
  no image is set, and the note is not one of the notes of a successful response.  After
  a submission the stored image is empty and the stored note is the error note.
\<close>

theorem postWebhook_error_status:
  assumes "res_status res < 200 \<or> 299 < res_status res"
  shows "postWebhook_settled (Resolved res) =
           [AddToast ''Webhook responded with an error'' Error,
            SetWebhookNote ''Webhook responded with an error.''] \<and>
         webhookImage (postWebhook_end (Resolved res) (postWebhook_begin s)) = None \<and>
         webhookNote (postWebhook_end (Resolved res) (postWebhook_begin s)) =
           Some ''Webhook responded with an error.''"
proof -
  from assms have "\<not> ok res" by (auto simp: ok_def)
  then have settled: "postWebhook_settled (Resolved res) =
           [AddToast ''Webhook responded with an error'' Error,
            SetWebhookNote ''Webhook responded with an error.'']"
    by (simp add: postWebhook_settled_def)
  then show ?thesis
    by (simp add: postWebhook_end_def postWebhook_begin_def addToast_def Let_def)
qed

theorem postWebhook_error_status_witness:
  "postWebhook_settled
     (Resolved (\<lparr>res_status = 404, res_contentType = Some ''image/png'',
                 res_objectUrl = Some ''blob:1'', res_json = None,
                 res_text = Some ''https://x/y.png''\<rparr> :: nat response)) =
     [AddToast ''Webhook responded with an error'' Error,
      SetWebhookNote ''Webhook responded with an error.'']"
proof -
  let ?res = "\<lparr>res_status = 404, res_contentType = Some ''image/png'',
                 res_objectUrl = Some ''blob:1'', res_json = None,
                 res_text = Some ''https://x/y.png''\<rparr> :: nat response"
  have h: "res_status ?res < 200 \<or> 299 < res_status ?res" by simp
  from postWebhook_error_status [OF h, of "initial 0"] show ?thesis by (rule conjunct1)
qed

text \<open>
  C5.  For a successful response with a JSON content type (one that does not start with
  \<open>image/\<close> and contains \<open>application/json\<close>) whose body does not parse, nothing is
  raised to the outer handler: the result is the note that no image field was found,
  with the toast of a successful request.
\<close>

theorem postWebhook_malformed_json:
  assumes "ok res"
    and "\<not> startsWith (contentTypeOf res) ''image/''"
    and "includes_str (contentTypeOf res) ''application/json''"
    and "res_json res = None"
  shows "postWebhook_settled (Resolved res) =
           [SetWebhookNote ''Webhook responded but no image field was found.'',
            AddToast ''URL sent successfully'' Success]"
  using assms by (simp add: postWebhook_settled_def noteActions_def)

theorem postWebhook_malformed_json_witness:
  "postWebhook_settled
     (Resolved (\<lparr>res_status = 200, res_contentType = Some ''application/json; charset=utf-8'',
                 res_objectUrl = None, res_json = None, res_text = None\<rparr> :: nat response)) =
     [SetWebhookNote ''Webhook responded but no image field was found.'',
      AddToast ''URL sent successfully'' Success]"
proof -
  let ?res = "\<lparr>res_status = 200, res_contentType = Some ''application/json; charset=utf-8'',
                 res_objectUrl = None, res_json = None, res_text = None\<rparr> :: nat response"
  have h1: "ok ?res" by (simp add: ok_def)
  have h2: "\<not> startsWith (contentTypeOf ?res) ''image/''"
    by (simp add: contentTypeOf_def startsWith_def)
  have h3: "includes_str (contentTypeOf ?res) ''application/json''"
    by (simp add: contentTypeOf_def startsWith_def)
  have h4: "res_json ?res = None" by simp
  from postWebhook_malformed_json [OF h1 h2 h3 h4] show ?thesis .
qed

text \<open>
  C6.  For a successful response whose content type is neither an image type nor JSON
  and whose body is read as the text \<open>txt\<close>: when the trimmed text matches the pattern,
  the image is set to the trimmed text; when the text is empty, the note says that the
  webhook responded with no body; otherwise the note says that no image field was found.
\<close>

theorem postWebhook_text:
  assumes "ok res"
    and "\<not> startsWith (contentTypeOf res) ''image/''"
    and "\<not> includes_str (contentTypeOf res) ''application/json''"
    and "res_text res = Some txt"
  shows "postWebhook_settled (Resolved res) =
           (if looksLikeUrl (trim txt)
              then [SetWebhookImage (trim txt), AddToast ''Preview received from webhook'' Success]
            else if txt = []
              then [SetWebhookNote ''Webhook responded with no body.'',
                    AddToast ''URL sent successfully'' Success]
            else [SetWebhookNote ''Webhook responded but no image field was found.'',
                  AddToast ''URL sent successfully'' Success])"
proof -
  have "looksLikeUrl (trim txt) \<Longrightarrow> txt \<noteq> []"
    using looksLikeUrl_Nil by auto
  with assms show ?thesis
    by (auto simp: postWebhook_settled_def previewActions_def noteActions_def)
qed

theorem postWebhook_text_witness:
  "postWebhook_settled
     (Resolved (\<lparr>res_status = 200, res_contentType = Some ''text/plain'',
                 res_objectUrl = None, res_json = None,
                 res_text = Some '' https://x/y.png ''\<rparr> :: nat response)) =
     [SetWebhookImage ''https://x/y.png'', AddToast ''Preview received from webhook'' Success] \<and>
   postWebhook_settled
     (Resolved (\<lparr>res_status = 200, res_contentType = None,
                 res_objectUrl = None, res_json = None, res_text = Some ''''\<rparr> :: nat response)) =
     [SetWebhookNote ''Webhook responded with no body.'', AddToast ''URL sent successfully'' Success]"
proof -
  let ?r1 = "\<lparr>res_status = 200, res_contentType = Some ''text/plain'',
                 res_objectUrl = None, res_json = None,
                 res_text = Some '' https://x/y.png ''\<rparr> :: nat response"
  let ?r2 = "\<lparr>res_status = 200, res_contentType = None,
                 res_objectUrl = None, res_json = None, res_text = Some ''''\<rparr> :: nat response"
  have t: "trim '' https://x/y.png '' = ''https://x/y.png''"
    by (simp add: trim_def isWhiteSpace_def)
  have l: "looksLikeUrl ''https://x/y.png''" by code_simp
  have a1: "ok ?r1" and a2: "\<not> startsWith (contentTypeOf ?r1) ''image/''"
    and a3: "\<not> includes_str (contentTypeOf ?r1) ''application/json''"
    and a4: "res_text ?r1 = Some '' https://x/y.png ''"
    by (simp_all add: ok_def contentTypeOf_def startsWith_def)
  have b1: "ok ?r2" and b2: "\<not> startsWith (contentTypeOf ?r2) ''image/''"
    and b3: "\<not> includes_str (contentTypeOf ?r2) ''application/json''"
    and b4: "res_text ?r2 = Some ''''"
    by (simp_all add: ok_def contentTypeOf_def startsWith_def)
  have "postWebhook_settled (Resolved ?r1) =
     [SetWebhookImage ''https://x/y.png'', AddToast ''Preview received from webhook'' Success]"
    using postWebhook_text [OF a1 a2 a3 a4] by (simp only: t l if_True)
  moreover have "postWebhook_settled (Resolved ?r2) =
     [SetWebhookNote ''Webhook responded with no body.'', AddToast ''URL sent successfully'' Success]"
    using postWebhook_text [OF b1 b2 b3 b4] looksLikeUrl_Nil by (simp only: trim_Nil if_False simp_thms if_True)
  ultimately show ?thesis by (rule conjI)
qed

section \<open>The name of a downloaded file\<close>

lemma split_without: "sep \<notin> set s \<Longrightarrow> split sep s = [s]"
  by (induction s) auto

lemma split_not_Nil: "split sep s \<noteq> []"
  by (induction s) (auto split: list.splits)

lemma join_split: "concat (map (\<lambda>p. sep # p) (split sep s)) = sep # s"
  by (induction s) (auto split: list.splits)

lemma takeWhile_snoc_sep:
  "takeWhile (\<lambda>c. c \<noteq> sep) (xs @ [sep]) = takeWhile (\<lambda>c. c \<noteq> sep) xs"
  by (induction xs) auto

lemma takeWhile_snoc_has:
  "sep \<in> set xs \<Longrightarrow> takeWhile (\<lambda>c. c \<noteq> sep) (xs @ [c]) = takeWhile (\<lambda>c. c \<noteq> sep) xs"
  by (induction xs) auto

lemma takeWhile_without: "sep \<notin> set xs \<Longrightarrow> takeWhile (\<lambda>c. c \<noteq> sep) xs = xs"
  by (induction xs) auto

lemma pop_last: "xs \<noteq> [] \<Longrightarrow> pop xs = Some (last xs)"
  by (induction xs rule: pop.induct) auto

lemma last_split: "last (split sep s) = rev (takeWhile (\<lambda>c. c \<noteq> sep) (rev s))"
proof (induction s)
  case Nil
  show ?case by simp
next
  case (Cons c cs)
  show ?case
  proof (cases "c = sep")
    case True
    then have "last (split sep (c # cs)) = last (split sep cs)"
      using split_not_Nil [of sep cs] by simp
    also have "\<dots> = rev (takeWhile (\<lambda>c. c \<noteq> sep) (rev cs))" by (rule Cons.IH)
    also have "takeWhile (\<lambda>c. c \<noteq> sep) (rev cs) = takeWhile (\<lambda>c. c \<noteq> sep) (rev (c # cs))"
      using True by (simp add: takeWhile_snoc_sep)
    finally show ?thesis .
  next
    case False
    show ?thesis
    proof (cases "sep \<in> set cs")
      case True
      obtain piece pieces where sp: "split sep cs = piece # pieces"
        using split_not_Nil [of sep cs] by (cases "split sep cs") auto
      have "pieces \<noteq> []"
      proof
        assume single: "pieces = []"
        with sp have l: "last (split sep cs) = piece" by simp
        have "sep \<notin> set (takeWhile (\<lambda>c. c \<noteq> sep) (rev cs))"
          by (auto dest: set_takeWhileD)
        with Cons.IH l have np: "sep \<notin> set piece" by simp
        from join_split [of sep cs] sp single have "piece = cs" by simp
        with np True show False by simp
      qed
      with sp False have "last (split sep (c # cs)) = last (split sep cs)" by simp
      also have "\<dots> = rev (takeWhile (\<lambda>c. c \<noteq> sep) (rev cs))" by (rule Cons.IH)
      also have "takeWhile (\<lambda>c. c \<noteq> sep) (rev cs) = takeWhile (\<lambda>c. c \<noteq> sep) (rev (c # cs))"
        using True by (simp add: takeWhile_snoc_has)
      finally show ?thesis .
    next
      case nosep: False
      with False have "sep \<notin> set (c # cs)" by simp
      then have A: "split sep (c # cs) = [c # cs]" by (rule split_without)
      have B: "takeWhile (\<lambda>c. c \<noteq> sep) (rev (c # cs)) = rev (c # cs)"
        using nosep False by (intro takeWhile_without) simp
      show ?thesis by (simp only: A B last.simps rev_rev_ident refl if_True)
    qed
  qed
qed

lemma pop_split: "pop (split CHR ''/'' path) = Some (lastSegment path)"
  by (simp add: pop_last split_not_Nil last_split lastSegment_def)

lemma startsWith_append: "startsWith s (p @ q) \<Longrightarrow> startsWith s p"
  unfolding startsWith_def
proof -
  assume a: "take (length (p @ q)) s = p @ q"
  have "take (length p) s = take (length p) (take (length (p @ q)) s)" by (simp add: min_def)
  also have "\<dots> = take (length p) (p @ q)" by (simp only: a)
  also have "\<dots> = p" by simp
  finally show "take (length p) s = p" .
qed

lemma startsWith_data:
  "\<not> startsWith s ''data:'' \<Longrightarrow> \<not> startsWith s ''data:image/''"
  using startsWith_append [of s "''data:''" "''image/''"] by auto

text \<open>
  C7, as the specification states it, gives \<open>preview.png\<close> for a last segment without an
  extension.  The code appends \<open>.png\<close> to such a segment: \<open>https://x/photo\<close> is saved
  as \<open>photo.png\<close>.
\<close>

theorem getFilename_extension_counterexample:
  "\<not> startsWith ''https://x/photo'' ''blob:'' \<and> \<not> startsWith ''https://x/photo'' ''data:'' \<and>
   new_URL ''https://x/photo'' = Some \<lparr>protocol = ''https:'', pathname = ''/photo''\<rparr> \<and>
   lastSegment ''/photo'' = ''photo'' \<and> CHR ''.'' \<notin> set ''photo'' \<and>
   getFilename new_URL ''https://x/photo'' = ''photo.png'' \<and>
   getFilename new_URL ''https://x/photo'' \<noteq> ''preview.png''"
proof -
  have h1: "\<not> startsWith ''https://x/photo'' ''blob:''" by (simp add: startsWith_def)
  have h2: "\<not> startsWith ''https://x/photo'' ''data:''" by (simp add: startsWith_def)
  have u: "new_URL ''https://x/photo'' = Some \<lparr>protocol = ''https:'', pathname = ''/photo''\<rparr>"
    by code_simp
  have l: "lastSegment ''/photo'' = ''photo''" by (simp add: lastSegment_def)
  have d: "CHR ''.'' \<notin> set ''photo''" by simp
  have g: "getFilename new_URL ''https://x/photo'' = ''photo.png''"
    by (simp add: getFilename_def u startsWith_def)
  from h1 h2 u l d g show ?thesis by simp
qed

text \<open>
  C7, amended.  For a reference that starts neither with \<open>blob:\<close> nor with \<open>data:\<close>,
  whatever the URL constructor is: the name is \<open>preview.png\<close> when the constructor throws
  or the last segment of the path is empty; it is the last segment when that contains a
  dot; otherwise it is the last segment followed by \<open>.png\<close>.
\<close>

theorem getFilename_remote:
  assumes "\<not> startsWith urlStr ''blob:''" and "\<not> startsWith urlStr ''data:''"
  shows "getFilename URL urlStr =
           (case URL urlStr of
              None \<Rightarrow> ''preview.png''
            | Some u \<Rightarrow>
                if lastSegment (pathname u) = [] then ''preview.png''
                else if CHR ''.'' \<in> set (lastSegment (pathname u)) then lastSegment (pathname u)
                else lastSegment (pathname u) @ ''.png'')"
  using startsWith_data [OF assms(2)]
  by (simp add: getFilename_def pop_split split: option.splits)

theorem getFilename_remote_witness:
  "\<not> startsWith ''https://x/y.png'' ''blob:'' \<and> \<not> startsWith ''https://x/y.png'' ''data:'' \<and>
   getFilename new_URL ''https://x/y.png'' = ''y.png''"
proof -
  have h1: "\<not> startsWith ''https://x/y.png'' ''blob:''" by (simp add: startsWith_def)
  have h2: "\<not> startsWith ''https://x/y.png'' ''data:''" by (simp add: startsWith_def)
  have u: "new_URL ''https://x/y.png'' = Some \<lparr>protocol = ''https:'', pathname = ''/y.png''\<rparr>"
    by code_simp
  have l: "lastSegment ''/y.png'' = ''y.png''" by (simp add: lastSegment_def)
  have "getFilename new_URL ''https://x/y.png'' = ''y.png''"
    using getFilename_remote [OF h1 h2, of new_URL] by (simp add: u l)
  with h1 h2 show ?thesis by simp
qed

section \<open>Validation of a submitted URL\<close>

lemma new_URL_https_ftp:
  "new_URL ''https://ftp://x'' = Some \<lparr>protocol = ''https:'', pathname = ''//x''\<rparr>"
proof -
  have port: "portValid [] = True" by (simp add: portValid_def)
  have host: "hostValid False ''ftp'' = True" by code_simp
  have hostPort: "splitHostPort False [] ''ftp:'' = (''ftp'', Some [])" by code_simp
  have authority: "authorityValid True ''ftp:'' = True"
    by (simp add: authorityValid_def hostPort host port)
  have path: "serializePath (pathStartSpecial False ''//x'') = ''//x''" by code_simp
  have special: "isSpecial ''https'' = True" by code_simp
  show ?thesis
    by (simp add: new_URL_def parseSpecial_def authority path special isTabOrNewline_def
        isC0ControlOrSpace_def code_def isAsciiAlpha_def isSchemeChar_def isAsciiDigit_def
        asciiLower_def isSlash_def backslash_def isAuthorityEnd_def)
qed

text \<open>
  C3.  \<open>validateUrl\<close> alone rejects \<open>ftp://x\<close>.  \<open>handleSubmit\<close> normalizes first, and
  \<open>normalizeUrl\<close> puts \<open>https://\<close> before every text that has neither prefix:
  \<open>ftp://x\<close> becomes \<open>https://ftp://x\<close>, which the URL constructor reads as the scheme
  \<open>https\<close>, the host \<open>ftp\<close> with an empty port, and the path \<open>//x\<close>.  The submission is
  accepted.
\<close>

theorem handleSubmit_ftp:
  "normalizeUrl ''ftp://x'' = ''https://ftp://x'' \<and>
   new_URL ''ftp://x'' = Some \<lparr>protocol = ''ftp:'', pathname = ''/''\<rparr> \<and>
   validateUrl new_URL ''ftp://x'' = False \<and>
   new_URL ''https://ftp://x'' = Some \<lparr>protocol = ''https:'', pathname = ''//x''\<rparr> \<and>
   validateUrl new_URL ''https://ftp://x'' = True \<and>
   handleSubmit new_URL ''ftp://x'' = Accepted ''https://ftp://x''"
proof -
  have t: "trim ''ftp://x'' = ''ftp://x''" by (simp add: trim_def isWhiteSpace_def)
  have n: "normalizeUrl ''ftp://x'' = ''https://ftp://x''"
    by (simp add: normalizeUrl_def t startsWith_def)
  have u1: "new_URL ''ftp://x'' = Some \<lparr>protocol = ''ftp:'', pathname = ''/''\<rparr>"
    by code_simp
  note u2 = new_URL_https_ftp
  have v1: "validateUrl new_URL ''ftp://x'' = False" by (simp add: validateUrl_def u1)
  have v2: "validateUrl new_URL ''https://ftp://x'' = True" by (simp add: validateUrl_def u2)
  have "handleSubmit new_URL ''ftp://x'' = Accepted ''https://ftp://x''"
    by (simp add: handleSubmit_def t n v2)
  with n u1 v1 u2 v2 show ?thesis by simp
qed

section \<open>The state of the page: results and toasts\<close>

lemma settled_shape:
  "(\<exists>img toast. postWebhook_settled f = [SetWebhookImage img, toast] \<and> (\<exists>m ty. toast = AddToast m ty)) \<or>
   (\<exists>msg toast. postWebhook_settled f = [SetWebhookNote msg, toast] \<and> (\<exists>m ty. toast = AddToast m ty)) \<or>
   (\<exists>msg toast. postWebhook_settled f = [toast, SetWebhookNote msg] \<and> (\<exists>m ty. toast = AddToast m ty))"
  by (auto simp: postWebhook_settled_def corsActions_def previewActions_def noteActions_def Let_def
      split: fetched.splits option.splits)

lemma addToast_frame [simp]:
  "webhookImage (addToast m ty s) = webhookImage s"
  "webhookNote (addToast m ty s) = webhookNote s"
  "webhookLoading (addToast m ty s) = webhookLoading s"
  "inFlight (addToast m ty s) = inFlight s"
  "clock (addToast m ty s) = clock s"
  by (simp_all add: addToast_def Let_def)

lemma removeToast_frame [simp]:
  "webhookImage (removeToast tid s) = webhookImage s"
  "webhookNote (removeToast tid s) = webhookNote s"
  "webhookLoading (removeToast tid s) = webhookLoading s"
  "inFlight (removeToast tid s) = inFlight s"
  "clock (removeToast tid s) = clock s"
  "timers (removeToast tid s) = timers s"
  by (simp_all add: removeToast_def)

lemma postWebhook_end_result:
  assumes "webhookImage s = None" and "webhookNote s = None"
  shows "(webhookImage (postWebhook_end f s) = None \<or> webhookNote (postWebhook_end f s) = None) \<and>
         \<not> webhookLoading (postWebhook_end f s) \<and>
         inFlight (postWebhook_end f s) = inFlight s - 1"
  using settled_shape [of f] assms
  by (auto simp: postWebhook_end_def)

lemma step_settledInv:
  assumes "settledInv s" and "step lag e s = Some s'" and "oneAtATime (inFlight s) (e # es)"
  shows "settledInv s' \<and> oneAtATime (inFlight s') es"
proof (cases e)
  case Submit
  with assms show ?thesis by (auto simp: settledInv_def postWebhook_begin_def)
next
  case (Settle f)
  with assms have one: "inFlight s = 1" and s': "s' = postWebhook_end f s"
    by (auto simp: settledInv_def split: if_splits)
  with assms(1) have "webhookImage s = None" "webhookNote s = None"
    by (simp_all add: settledInv_def)
  from postWebhook_end_result [OF this, of f] one s' assms(3) Settle show ?thesis
    by (auto simp: settledInv_def)
next
  case (Toast m ty)
  with assms show ?thesis by (auto simp: settledInv_def)
next
  case (Dismiss tid)
  with assms show ?thesis by (auto simp: settledInv_def)
next
  case (Fire i)
  with assms show ?thesis by (auto simp: settledInv_def split: if_splits)
next
  case (Advance d)
  with assms show ?thesis by (auto simp: settledInv_def split: if_splits)
qed

lemma run_settledInv:
  "settledInv s \<Longrightarrow> run lag es s = Some s' \<Longrightarrow> oneAtATime (inFlight s) es \<Longrightarrow> settledInv s'"
proof (induction es arbitrary: s)
  case Nil
  then show ?case by simp
next
  case (Cons e es)
  from Cons.prems(2) obtain s1 where s1: "step lag e s = Some s1" and r: "run lag es s1 = Some s'"
    by (auto split: option.splits)
  from step_settledInv [OF Cons.prems(1) s1 Cons.prems(3)]
  have "settledInv s1" "oneAtATime (inFlight s1) es" by simp_all
  with r show ?case by (intro Cons.IH)
qed


lemma digit_inj: "d < 10 \<Longrightarrow> e < 10 \<Longrightarrow> digit d = digit e \<Longrightarrow> d = e"
proof -
  assume d: "d < 10" and e: "e < 10" and eq: "digit d = digit e"
  from eq have "(of_char (digit d) :: nat) = of_char (digit e)" by simp
  with d e show "d = e" by (simp add: digit_def)
qed

lemma toString_not_Nil: "toString n \<noteq> []"
  by (subst toString.simps) simp

lemma toString_inj: "toString n = toString m \<Longrightarrow> n = m"
proof (induction n arbitrary: m rule: toString.induct)
  case (1 n)
  show ?case
  proof (cases "n < 10")
    case True
    note small = True
    show ?thesis
    proof (cases "m < 10")
      case True
      with small "1.prems" have "digit n = digit m"
        by (simp add: toString.simps [of n] toString.simps [of m])
      with small True show ?thesis by (rule digit_inj)
    next
      case False
      with small "1.prems" have "[digit n] = toString (m div 10) @ [digit (m mod 10)]"
        by (simp add: toString.simps [of n] toString.simps [of m])
      then have "toString (m div 10) = []" by simp
      with toString_not_Nil show ?thesis by blast
    qed
  next
    case False
    note big = False
    show ?thesis
    proof (cases "m < 10")
      case True
      with big "1.prems" have "toString (n div 10) @ [digit (n mod 10)] = [digit m]"
        by (simp add: toString.simps [of n] toString.simps [of m])
      then have "toString (n div 10) = []" by simp
      with toString_not_Nil show ?thesis by blast
    next
      case False
      with big "1.prems"
      have "toString (n div 10) @ [digit (n mod 10)] = toString (m div 10) @ [digit (m mod 10)]"
        by (simp add: toString.simps [of n] toString.simps [of m])
      then have a: "toString (n div 10) = toString (m div 10)"
        and b: "digit (n mod 10) = digit (m mod 10)" by simp_all
      from "1.IH" [OF big a] have "n div 10 = m div 10" .
      moreover from b have "n mod 10 = m mod 10" by (intro digit_inj) simp_all
      ultimately show ?thesis by (metis div_mult_mod_eq)
    qed
  qed
qed

lemma toastsInv_initial: "toastsInv lag (initial t0)"
  by (simp add: toastsInv_def initial_def)

lemma toastsInv_addToast: "toastsInv lag s \<Longrightarrow> toastsInv lag (addToast m ty s)"
  unfolding toastsInv_def addToast_def Let_def
  by (auto simp: Ball_def)

lemma toastsInv_removeToast: "toastsInv lag s \<Longrightarrow> toastsInv lag (removeToast tid s)"
  unfolding toastsInv_def removeToast_def by auto

lemma toastsInv_perform: "toastsInv lag s \<Longrightarrow> toastsInv lag (perform a s)"
  by (cases a) (simp_all add: toastsInv_addToast, simp_all add: toastsInv_def)

lemma toastsInv_fold: "toastsInv lag s \<Longrightarrow> toastsInv lag (fold perform as s)"
  by (induction as arbitrary: s) (simp_all add: toastsInv_perform)

lemma toastsInv_fields:
  "toasts s' = toasts s \<Longrightarrow> timers s' = timers s \<Longrightarrow> clock s' = clock s \<Longrightarrow>
   toastsInv lag s \<Longrightarrow> toastsInv lag s'"
  by (simp add: toastsInv_def)

lemma in_set_remove_nth:
  "x \<in> set xs \<Longrightarrow> i < length xs \<Longrightarrow> x \<noteq> xs ! i \<Longrightarrow> x \<in> set (take i xs @ drop (Suc i) xs)"
proof (induction xs arbitrary: i)
  case Nil
  then show ?case by simp
next
  case (Cons y ys)
  show ?case
  proof (cases i)
    case 0
    with Cons.prems show ?thesis by simp
  next
    case (Suc k)
    show ?thesis
    proof (cases "x = y")
      case True
      with Suc show ?thesis by simp
    next
      case False
      with Cons.prems Suc have "x \<in> set ys" "k < length ys" "x \<noteq> ys ! k" by simp_all
      then have "x \<in> set (take k ys @ drop (Suc k) ys)" by (rule Cons.IH)
      with Suc show ?thesis by simp
    qed
  qed
qed

lemma toastsInv_step: "toastsInv lag s \<Longrightarrow> step lag e s = Some s' \<Longrightarrow> toastsInv lag s'"
proof (cases e)
  case Submit
  assume "toastsInv lag s" "step lag e s = Some s'"
  with Submit show ?thesis
    by (auto simp: postWebhook_begin_def elim!: toastsInv_fields [rotated 3])
next
  case (Settle f)
  assume inv: "toastsInv lag s" and st: "step lag e s = Some s'"
  with Settle have s': "s' = postWebhook_end f s" by (auto split: if_splits)
  from inv have "toastsInv lag (fold perform (postWebhook_settled f) s)" by (rule toastsInv_fold)
  then show ?thesis unfolding s' postWebhook_end_def
    by (rule toastsInv_fields [rotated 3]) simp_all
next
  case (Toast m ty)
  assume "toastsInv lag s" "step lag e s = Some s'"
  with Toast show ?thesis by (auto simp: toastsInv_addToast)
next
  case (Dismiss tid)
  assume "toastsInv lag s" "step lag e s = Some s'"
  with Dismiss show ?thesis by (auto simp: toastsInv_removeToast)
next
  case (Fire i)
  assume inv: "toastsInv lag s" and st: "step lag e s = Some s'"
  with Fire have i: "i < length (timers s)"
    and s': "s' = removeToast (snd (timers s ! i))
                    (s\<lparr>timers := take i (timers s) @ drop (Suc i) (timers s)\<rparr>)"
    by (auto split: if_splits)
  have "\<forall>toast\<in>set (toasts s'). \<exists>T. toast_id toast = toString T \<and>
          (T + 3000, toString T) \<in> set (timers s')"
  proof
    fix toast assume "toast \<in> set (toasts s')"
    then have t: "toast \<in> set (toasts s)" and ne: "toast_id toast \<noteq> snd (timers s ! i)"
      by (simp_all add: s' removeToast_def)
    from inv t obtain T where T: "toast_id toast = toString T"
      and m: "(T + 3000, toString T) \<in> set (timers s)"
      by (auto simp: toastsInv_def)
    have "(T + 3000, toString T) \<noteq> timers s ! i"
    proof
      assume "(T + 3000, toString T) = timers s ! i"
      then have "snd (timers s ! i) = toString T" by (metis snd_conv)
      with ne T show False by simp
    qed
    with m i have "(T + 3000, toString T) \<in> set (take i (timers s) @ drop (Suc i) (timers s))"
      by (intro in_set_remove_nth)
    with T show "\<exists>T. toast_id toast = toString T \<and> (T + 3000, toString T) \<in> set (timers s')"
      by (auto simp: s')
  qed
  moreover have "\<forall>timer\<in>set (timers s'). clock s' \<le> fst timer + lag"
    using inv by (auto simp: s' toastsInv_def dest: in_set_takeD in_set_dropD)
  ultimately show ?thesis by (simp add: toastsInv_def)
next
  case (Advance d)
  assume inv: "toastsInv lag s" and st: "step lag e s = Some s'"
  with Advance have guard: "\<forall>timer\<in>set (timers s). clock s + d \<le> fst timer + lag"
    and s': "s' = s\<lparr>clock := clock s + d\<rparr>"
    by (auto simp: list_all_iff split: if_splits)
  from inv guard show ?thesis by (simp add: toastsInv_def s')
qed

lemma toastsInv_run: "toastsInv lag s \<Longrightarrow> run lag es s = Some s' \<Longrightarrow> toastsInv lag s'"
proof (induction es arbitrary: s)
  case Nil
  then show ?case by simp
next
  case (Cons e es)
  from Cons.prems(2) obtain s1 where s1: "step lag e s = Some s1" and r: "run lag es s1 = Some s'"
    by (auto split: option.splits)
  from Cons.prems(1) s1 have "toastsInv lag s1" by (rule toastsInv_step)
  then show ?case using r by (rule Cons.IH)
qed

lemma settledInv_initial: "settledInv (initial t0)"
  by (simp add: settledInv_def initial_def)

lemma postWebhook_end_sets_one:
  "(\<exists>img. webhookImage (postWebhook_end f s) = Some img \<and>
          webhookNote (postWebhook_end f s) = webhookNote s) \<or>
   (\<exists>msg. webhookNote (postWebhook_end f s) = Some msg \<and>
          webhookImage (postWebhook_end f s) = webhookImage s)"
  using settled_shape [of f] by (auto simp: postWebhook_end_def)

lemma looksLikeUrl_example: "looksLikeUrl ''https://x/y.png''"
  by code_simp

lemma settled_image_example:
  "postWebhook_settled
     (Resolved \<lparr>res_status = 200, res_contentType = Some ''text/plain'', res_objectUrl = None,
                res_json = None, res_text = Some ''https://x/y.png''\<rparr>) =
   [SetWebhookImage ''https://x/y.png'', AddToast ''Preview received from webhook'' Success]"
proof -
  have t: "trim ''https://x/y.png'' = ''https://x/y.png''"
    by (simp add: trim_def isWhiteSpace_def)
  show ?thesis
    by (simp add: postWebhook_settled_def ok_def contentTypeOf_def startsWith_def t
        looksLikeUrl_example previewActions_def)
qed

lemma settled_note_example:
  "postWebhook_settled
     (Resolved \<lparr>res_status = 200, res_contentType = None, res_objectUrl = None,
                res_json = None, res_text = Some []\<rparr>) =
   [SetWebhookNote ''Webhook responded with no body.'', AddToast ''URL sent successfully'' Success]"
  by (simp add: postWebhook_settled_def ok_def contentTypeOf_def startsWith_def noteActions_def)

text \<open>
  C9, as the specification states it, fails when submissions overlap.  Nothing cancels a
  pending request.  After two submissions, the first response to arrive stores its image;
  the second stores its note and leaves the image: the results of two requests are
  stored together.
\<close>

theorem overlapping_submissions_counterexample:
  "map_option webhookImage
     (run 0 [Submit, Submit,
             Settle (Resolved \<lparr>res_status = 200, res_contentType = Some ''text/plain'',
                                res_objectUrl = None, res_json = None :: nat json option,
                                res_text = Some ''https://x/y.png''\<rparr>)]
        (initial 0)) = Some (Some ''https://x/y.png'') \<and>
   map_option webhookNote
     (run 0 [Submit, Submit,
             Settle (Resolved \<lparr>res_status = 200, res_contentType = Some ''text/plain'',
                                res_objectUrl = None, res_json = None :: nat json option,
                                res_text = Some ''https://x/y.png''\<rparr>)]
        (initial 0)) = Some None \<and>
   map_option webhookImage
     (run 0 [Submit, Submit,
             Settle (Resolved \<lparr>res_status = 200, res_contentType = Some ''text/plain'',
                                res_objectUrl = None, res_json = None :: nat json option,
                                res_text = Some ''https://x/y.png''\<rparr>),
             Settle (Resolved \<lparr>res_status = 200, res_contentType = None,
                                res_objectUrl = None, res_json = None,
                                res_text = Some []\<rparr>)]
        (initial 0)) = Some (Some ''https://x/y.png'') \<and>
   map_option webhookNote
     (run 0 [Submit, Submit,
             Settle (Resolved \<lparr>res_status = 200, res_contentType = Some ''text/plain'',
                                res_objectUrl = None, res_json = None :: nat json option,
                                res_text = Some ''https://x/y.png''\<rparr>),
             Settle (Resolved \<lparr>res_status = 200, res_contentType = None,
                                res_objectUrl = None, res_json = None,
                                res_text = Some []\<rparr>)]
        (initial 0)) = Some (Some ''Webhook responded with no body.'')"
  by (simp add: initial_def postWebhook_begin_def postWebhook_end_def settled_image_example
      settled_note_example)

text \<open>
  C9, amended.  A submission clears the stored image and note and sets the loading
  state before anything else, and a request that settles sets exactly one of image and
  note and leaves the other as it is.  So in every state reached by events in which no
  submission is made while a request is pending, at most one of image and note is
  stored, and while a request is pending the page is loading and stores neither.
\<close>

theorem one_result_without_overlap:
  assumes "run lag es (initial t0) = Some s" and "oneAtATime 0 es"
  shows "(webhookImage s = None \<or> webhookNote s = None) \<and>
         (if inFlight s = 0 then True
          else webhookLoading s \<and> webhookImage s = None \<and> webhookNote s = None) \<and>
         (\<forall>s0. webhookLoading (postWebhook_begin s0) \<and>
               webhookImage (postWebhook_begin s0) = None \<and>
               webhookNote (postWebhook_begin s0) = None) \<and>
         (\<forall>(f :: 'n fetched) s0.
            (\<exists>img. webhookImage (postWebhook_end f s0) = Some img \<and>
                   webhookNote (postWebhook_end f s0) = webhookNote s0) \<or>
            (\<exists>msg. webhookNote (postWebhook_end f s0) = Some msg \<and>
                   webhookImage (postWebhook_end f s0) = webhookImage s0))"
proof -
  have "oneAtATime (inFlight (initial t0)) es" using assms(2) by (simp add: initial_def)
  with settledInv_initial assms(1) have inv: "settledInv s" by (rule run_settledInv)
  then have a: "webhookImage s = None \<or> webhookNote s = None"
    by (auto simp: settledInv_def split: if_splits)
  from inv have b: "if inFlight s = 0 then True
          else webhookLoading s \<and> webhookImage s = None \<and> webhookNote s = None"
    by (auto simp: settledInv_def split: if_splits)
  have c: "\<forall>s0. webhookLoading (postWebhook_begin s0) \<and>
               webhookImage (postWebhook_begin s0) = None \<and>
               webhookNote (postWebhook_begin s0) = None"
    by (simp add: postWebhook_begin_def)
  have d: "\<forall>(f :: 'n fetched) s0.
            (\<exists>img. webhookImage (postWebhook_end f s0) = Some img \<and>
                   webhookNote (postWebhook_end f s0) = webhookNote s0) \<or>
            (\<exists>msg. webhookNote (postWebhook_end f s0) = Some msg \<and>
                   webhookImage (postWebhook_end f s0) = webhookImage s0)"
    using postWebhook_end_sets_one by blast
  from a b c d show ?thesis by (intro conjI)
qed

theorem one_result_without_overlap_witness:
  "oneAtATime 0
     [Submit,
      Settle (Resolved \<lparr>res_status = 200, res_contentType = Some ''text/plain'',
                         res_objectUrl = None, res_json = None :: nat json option,
                         res_text = Some ''https://x/y.png''\<rparr>),
      Submit,
      Settle (Resolved \<lparr>res_status = 200, res_contentType = None,
                         res_objectUrl = None, res_json = None,
                         res_text = Some []\<rparr>)] \<and>
   map_option webhookImage
     (run 0 [Submit,
             Settle (Resolved \<lparr>res_status = 200, res_contentType = Some ''text/plain'',
                                res_objectUrl = None, res_json = None :: nat json option,
                                res_text = Some ''https://x/y.png''\<rparr>),
             Submit,
             Settle (Resolved \<lparr>res_status = 200, res_contentType = None,
                                res_objectUrl = None, res_json = None,
                                res_text = Some []\<rparr>)]
        (initial 0)) = Some None \<and>
   map_option webhookNote
     (run 0 [Submit,
             Settle (Resolved \<lparr>res_status = 200, res_contentType = Some ''text/plain'',
                                res_objectUrl = None, res_json = None :: nat json option,
                                res_text = Some ''https://x/y.png''\<rparr>),
             Submit,
             Settle (Resolved \<lparr>res_status = 200, res_contentType = None,
                                res_objectUrl = None, res_json = None,
                                res_text = Some []\<rparr>)]
        (initial 0)) = Some (Some ''Webhook responded with no body.'')"
proof -
  let ?es = "[Submit,
      Settle (Resolved \<lparr>res_status = 200, res_contentType = Some ''text/plain'',
                         res_objectUrl = None, res_json = None :: nat json option,
                         res_text = Some ''https://x/y.png''\<rparr>),
      Submit,
      Settle (Resolved \<lparr>res_status = 200, res_contentType = None,
                         res_objectUrl = None, res_json = None,
                         res_text = Some []\<rparr>)]"
  have seq: "oneAtATime 0 ?es" by simp
  have "\<exists>s. run 0 ?es (initial 0) = Some s \<and>
          webhookNote s = Some ''Webhook responded with no body.''"
    by (simp add: initial_def postWebhook_begin_def postWebhook_end_def settled_image_example
        settled_note_example)
  then obtain s where r: "run 0 ?es (initial 0) = Some s"
    and n: "webhookNote s = Some ''Webhook responded with no body.''" by blast
  from one_result_without_overlap [OF r seq] have "webhookImage s = None \<or> webhookNote s = None"
    by (rule conjunct1)
  with n have "webhookImage s = None" by simp
  with seq r n show ?thesis by simp
qed

text \<open>
  C8.  \<open>addToast\<close> gives a toast the time of its insertion as its id and registers the
  callback that removes the toasts with this id, due 3000 time units later; the ids of
  different times differ.  When a pending callback runs less than 100 time units after
  it is due, then in every state, whatever the events before it (submissions, responses,
  other toasts, dismissals), at a time of \<open>T + 3100\<close> or later no toast inserted at time
  \<open>T\<close> is in the queue.
\<close>

theorem toast_expires:
  assumes "run lag es (initial t0) = Some s" and "lag < 100" and "T + 3100 \<le> clock s"
  shows "toString T \<notin> toast_id ` set (toasts s) \<and>
         (\<forall>msg ty s0. clock s0 = T \<longrightarrow>
            last (toasts (addToast msg ty s0)) =
              \<lparr>toast_id = toString T, toast_message = msg, toast_type = ty\<rparr>) \<and>
         (\<forall>T'. toString T' = toString T \<longrightarrow> T' = T)"
proof -
  have gone: "toString T \<notin> toast_id ` set (toasts s)"
  proof
    assume "toString T \<in> toast_id ` set (toasts s)"
    then obtain toast where t: "toast \<in> set (toasts s)" and tid: "toast_id toast = toString T"
      by auto
    from toastsInv_initial assms(1) have inv: "toastsInv lag s" by (rule toastsInv_run)
    with t obtain T' where T': "toast_id toast = toString T'"
      and m: "(T' + 3000, toString T') \<in> set (timers s)"
      by (auto simp: toastsInv_def)
    from tid T' have "T' = T" by (auto dest: toString_inj)
    with inv m have "clock s \<le> T + 3000 + lag" by (auto simp: toastsInv_def)
    with assms(2,3) show False by simp
  qed
  have ins: "\<forall>msg ty s0. clock s0 = T \<longrightarrow>
            last (toasts (addToast msg ty s0)) =
              \<lparr>toast_id = toString T, toast_message = msg, toast_type = ty\<rparr>"
    by (simp add: addToast_def Let_def)
  have inj: "\<forall>T'. toString T' = toString T \<longrightarrow> T' = T"
    using toString_inj by blast
  from gone ins inj show ?thesis by (intro conjI)
qed

theorem toast_expires_witness:
  "(50 :: nat) < 100 \<and>
   map_option (map toast_id \<circ> toasts)
     (run 50 [Toast ''Download started'' Success :: nat event] (initial 0)) = Some [''0''] \<and>
   map_option clock
     (run 50 [Toast ''Download started'' Success :: nat event, Advance 3000, Fire 0, Advance 100]
        (initial 0)) = Some 3100 \<and>
   map_option toasts
     (run 50 [Toast ''Download started'' Success :: nat event, Advance 3000, Fire 0, Advance 100]
        (initial 0)) = Some []"
proof -
  let ?es = "[Toast ''Download started'' Success :: nat event, Advance 3000, Fire 0, Advance 100]"
  have z: "toString 0 = ''0''" by code_simp
  have lag: "(50 :: nat) < 100" by simp
  have one: "map_option (map toast_id \<circ> toasts)
       (run 50 [Toast ''Download started'' Success :: nat event] (initial 0)) = Some [''0'']"
    by (simp add: initial_def addToast_def Let_def z)
  have "\<exists>s. run 50 ?es (initial 0) = Some s \<and> clock s = 3100 \<and>
          (\<forall>toast\<in>set (toasts s). toast_id toast = ''0'')"
    by (simp add: initial_def addToast_def removeToast_def Let_def z)
  then obtain s where r: "run 50 ?es (initial 0) = Some s" and c: "clock s = 3100"
    and ids: "\<forall>toast\<in>set (toasts s). toast_id toast = ''0''" by blast
  from c have late: "0 + 3100 \<le> clock s" by simp
  from toast_expires [OF r lag late] have "toString 0 \<notin> toast_id ` set (toasts s)"
    by (rule conjunct1)
  with ids z have "toasts s = []" by (cases "toasts s") auto
  with lag one r c show ?thesis by simp
qed

end
